theory Spec2Isabelle
  imports Complex_Main
begin

section \<open>Data model of the orchestration engine (orchestrator\_core.py)\<close>

text \<open>
  The three enumerations of the source, constructor for constructor.
\<close>

datatype AgentType = ANALYST | IMPLEMENTER | VALIDATOR | INTEGRATOR | CREATIVE | REASONER

datatype TaskStatus = PENDING | ASSIGNED | IN_PROGRESS | REVIEW | COMPLETED | BLOCKED

datatype SignalType = REQUIREMENT | DECISION_NEEDED | INNOVATION_DETECTED | QUALITY_ISSUE
  | INTEGRATION_READY | DEPLOYMENT_SIGNAL

text \<open>
  Python values that travel through task outputs, signal payloads and log entries: the worker
  results and the simulated outputs are dictionaries of strings, integers, booleans, lists
  and nested dictionaries. A dictionary is an association list in insertion order.
\<close>

datatype pyval = PNone | PBool bool | PInt int | PStr string | PList "pyval list"
  | PDict "(string \<times> pyval) list"

type_synonym pydict = "(string \<times> pyval) list"

text \<open>
  The dataclasses. Field names carry a prefix because \<open>id\<close>, \<open>status\<close>, \<open>type\<close> and
  \<open>name\<close> occur in several classes. Timestamps (\<open>datetime.now()\<close>) are clock readings
  handed to every operation as a natural number; floats are exact reals.
\<close>

record agent =
  a_id :: string
  a_name :: string
  a_type :: AgentType
  a_capabilities :: "string list"
  a_status :: string
  a_current_task :: "string option"
  a_performance_score :: real
  a_specializations :: "string list"

record task =
  t_id :: string
  t_description :: string
  t_agent_type :: AgentType
  t_status :: TaskStatus
  t_priority :: int
  t_dependencies :: "string list"
  t_output :: "pydict option"
  t_assigned_to :: "string option"
  t_created_at :: nat
  t_completed_at :: "nat option"

record signal =
  s_id :: string
  s_type :: SignalType
  s_source :: "string option"
  s_data :: pydict
  s_confidence :: real
  s_timestamp :: nat

record decision_record =
  d_decision :: string
  d_timestamp :: nat
  d_signal_data :: pydict

record project_context =
  c_project_id :: string
  c_name :: string
  c_description :: string
  c_requirements :: "string list"
  c_decisions :: "(string \<times> decision_record) list"
  c_patterns :: "(string \<times> string list) list"
  c_metrics :: "(string \<times> real) list"
  c_created_at :: nat
  c_updated_at :: nat

record log_entry =
  l_timestamp :: nat
  l_event_type :: string
  l_data :: pydict

text \<open>
  The engine object (\<open>ctxt\<close> is the field \<open>self.context\<close>). \<open>agents\<close> and
  \<open>tasks\<close> are Python dictionaries (insertion ordered, iterated in that order).
  \<open>spawned\<close> is not a field of the class: it is the event loop's list of
  \<open>_execute_task(task, agent)\<close> coroutines created by \<open>asyncio.create_task\<close> that
  have not run yet, and \<open>awaiting\<close> the ones suspended in the worker call; an entry is
  the key of the task and the key of the agent.
\<close>

record orchestrator =
  project_id :: string
  agents :: "(string \<times> agent) list"
  tasks :: "(string \<times> task) list"
  signals :: "signal list"
  ctxt :: "project_context option"
  execution_log :: "log_entry list"
  spawned :: "(string \<times> string) list"
  awaiting :: "(string \<times> string) list"

section \<open>Strings and dictionaries as Python has them\<close>

text \<open>\<open>str.lower()\<close> on the ASCII range; \<open>s.startswith(p)\<close>; the substring test \<open>sub in s\<close>.\<close>

definition lower_char :: "char \<Rightarrow> char" where
  "lower_char c =
     (let n = (of_char c :: nat) in if 65 \<le> n \<and> n \<le> 90 then char_of (n + 32) else c)"

definition lower :: "string \<Rightarrow> string" where
  "lower s = map lower_char s"

fun startswith :: "string \<Rightarrow> string \<Rightarrow> bool" where
  "startswith s [] = True"
| "startswith [] (p # ps) = False"
| "startswith (c # cs) (p # ps) = (c = p \<and> startswith cs ps)"

fun str_contains :: "string \<Rightarrow> string \<Rightarrow> bool" where
  "str_contains sub [] = (sub = [])"
| "str_contains sub (c # cs) = (startswith (c # cs) sub \<or> str_contains sub cs)"

text \<open>\<open>d.get(k)\<close> is \<open>map_of d k\<close>; \<open>d[k] = v\<close> keeps the position of an existing key.\<close>

fun dict_set :: "('k \<times> 'v) list \<Rightarrow> 'k \<Rightarrow> 'v \<Rightarrow> ('k \<times> 'v) list" where
  "dict_set [] k v = [(k, v)]"
| "dict_set ((k', v') # d) k v = (if k' = k then (k, v) # d else (k', v') # dict_set d k v)"

section \<open>The decomposer\<close>

definition deep_reasoning_keywords :: "string list" where
  "deep_reasoning_keywords =
     [''optimize'', ''performance'', ''algorithm'', ''complex'', ''architecture'',
      ''scale'', ''security'', ''analyze'', ''efficient'', ''bottleneck'']"

definition needs_deep_reasoning :: "string \<Rightarrow> bool" where
  "needs_deep_reasoning requirement =
     list_ex (\<lambda>keyword. str_contains keyword (lower requirement)) deep_reasoning_keywords"

text \<open>The \<open>Task(...)\<close> constructor with the defaults of the dataclass.\<close>

definition Task :: "string \<Rightarrow> string \<Rightarrow> AgentType \<Rightarrow> int \<Rightarrow> string list \<Rightarrow> nat \<Rightarrow> task" where
  "Task i descr ty prio deps now =
     \<lparr>t_id = i, t_description = descr, t_agent_type = ty, t_status = PENDING,
      t_priority = prio, t_dependencies = deps, t_output = None, t_assigned_to = None,
      t_created_at = now, t_completed_at = None\<rparr>"

text \<open>
  \<open>_decompose_requirement\<close>. \<open>uuid4 k\<close> is the result of the \<open>k\<close>-th call of
  \<open>uuid.uuid4()\<close> made by this invocation; one id is drawn per task appended, so the next
  id always has the index \<open>length tasks\<close>. \<open>tasks[-1]\<close> is \<open>last\<close> and \<open>tasks[0]\<close> is
  \<open>hd\<close>: the list is never empty where the source reads them.
\<close>

definition decompose_requirement :: "string \<Rightarrow> (nat \<Rightarrow> string) \<Rightarrow> nat \<Rightarrow> task list" where
  "decompose_requirement requirement uuid4 now =
     (let needs = needs_deep_reasoning requirement;
          tasks0 = [Task (uuid4 0)
                      (''Analyze and architect solution for: '' @ requirement) ANALYST 10 [] now];
          tasks1 = (if needs
                    then tasks0 @ [Task (uuid4 (length tasks0))
                      (''Perform deep technical analysis and optimization for: '' @ requirement)
                      REASONER 9 [t_id (hd tasks0)] now]
                    else tasks0);
          plan_deps = (if needs then [t_id (last tasks1)] else [t_id (hd tasks1)]);
          tasks2 = tasks1 @ [Task (uuid4 (length tasks1))
                      (''Create implementation plan for: '' @ requirement) ANALYST 8 plan_deps now];
          tasks3 = tasks2 @ [Task (uuid4 (length tasks2))
                      (''Generate code implementation for: '' @ requirement)
                      IMPLEMENTER 7 [t_id (last tasks2)] now];
          tasks4 = tasks3 @ [Task (uuid4 (length tasks3))
                      (''Validate and test implementation for: '' @ requirement)
                      VALIDATOR 6 [t_id (last tasks3)] now]
      in if needs
         then tasks4 @ [Task (uuid4 (length tasks4))
                      (''Optimize and refine implementation based on analysis: '' @ requirement)
                      REASONER 5 [t_id (last tasks4)] now]
         else tasks4)"

section \<open>The project state aggregator\<close>

text \<open>\<open>sum(1 for t in self.tasks.values() if t.status == st)\<close>.\<close>

definition count_status :: "TaskStatus \<Rightarrow> (string \<times> task) list \<Rightarrow> nat" where
  "count_status st ts = length (filter (\<lambda>t. t_status t = st) (map snd ts))"

text \<open>
  \<open>_calculate_health_score\<close>. The dictionary \<open>factors\<close> of the source is built and never
  read, so it has no counterpart here.
\<close>

definition calculate_health_score :: "orchestrator \<Rightarrow> real" where
  "calculate_health_score st =
     (let score = 85;
          blocked_ratio = real (count_status BLOCKED (tasks st)) / real (max (length (tasks st)) 1);
          score = score - blocked_ratio * 20
      in max 0 (min 100 score))"

record project_status =
  ps_project_id :: string
  ps_health_score :: real
  ps_progress :: real
  ps_active_agents :: nat
  ps_pending_decisions :: nat
  ps_tasks_total :: nat
  ps_tasks_completed :: nat
  ps_tasks_in_progress :: nat
  ps_tasks_blocked :: nat

definition get_project_status :: "orchestrator \<Rightarrow> project_status" where
  "get_project_status st =
     (let total_tasks = length (tasks st);
          completed_tasks = count_status COMPLETED (tasks st)
      in \<lparr>ps_project_id = project_id st,
          ps_health_score = calculate_health_score st,
          ps_progress = (if total_tasks > 0
                         then real completed_tasks / real total_tasks * 100 else 0),
          ps_active_agents = length (filter (\<lambda>a. a_status a = ''working'') (map snd (agents st))),
          ps_pending_decisions = length (filter (\<lambda>s. s_type s = DECISION_NEEDED) (signals st)),
          ps_tasks_total = total_tasks,
          ps_tasks_completed = completed_tasks,
          ps_tasks_in_progress = count_status IN_PROGRESS (tasks st),
          ps_tasks_blocked = count_status BLOCKED (tasks st)\<rparr>)"

section \<open>Rendering an output as text: \<open>str(task.output)\<close>\<close>

text \<open>
  \<open>str\<close> of a dictionary is its \<open>repr\<close>. A string is quoted with the apostrophe
  (code 0x27) unless it contains one and no double quote (0x22); the backslash (0x5C), the
  chosen quote, tab, newline, carriage return and the other control characters are escaped.
\<close>

definition digit_char :: "nat \<Rightarrow> char" where
  "digit_char n = (if n < 10 then char_of (48 + n) else char_of (87 + n))"

fun str_nat :: "nat \<Rightarrow> string" where
  "str_nat n = (if n < 10 then [digit_char n] else str_nat (n div 10) @ [digit_char (n mod 10)])"

definition str_int :: "int \<Rightarrow> string" where
  "str_int i = (if i < 0 then CHR ''-'' # str_nat (nat (- i)) else str_nat (nat i))"

definition repr_char :: "char \<Rightarrow> char \<Rightarrow> string" where
  "repr_char q c =
     (let n = (of_char c :: nat) in
      if c = CHR 0x5C then [CHR 0x5C, CHR 0x5C]
      else if c = q then [CHR 0x5C, q]
      else if n = 9 then [CHR 0x5C, CHR ''t'']
      else if n = 10 then [CHR 0x5C, CHR ''n'']
      else if n = 13 then [CHR 0x5C, CHR ''r'']
      else if n < 32 \<or> n = 127
        then [CHR 0x5C, CHR ''x'', digit_char (n div 16), digit_char (n mod 16)]
      else [c])"

definition repr_str :: "string \<Rightarrow> string" where
  "repr_str s =
     (let q = (if CHR 0x27 \<in> set s \<and> CHR 0x22 \<notin> set s then CHR 0x22 else CHR 0x27)
      in q # concat (map (repr_char q) s) @ [q])"

fun join :: "string \<Rightarrow> string list \<Rightarrow> string" where
  "join sep [] = []"
| "join sep [x] = x"
| "join sep (x # y # ys) = x @ sep @ join sep (y # ys)"

fun py_repr :: "pyval \<Rightarrow> string" where
  "py_repr PNone = ''None''"
| "py_repr (PBool b) = (if b then ''True'' else ''False'')"
| "py_repr (PInt i) = str_int i"
| "py_repr (PStr s) = repr_str s"
| "py_repr (PList xs) = ''['' @ join '', '' (map py_repr xs) @ '']''"
| "py_repr (PDict d) =
     ''{'' @ join '', '' (map (\<lambda>kv. repr_str (fst kv) @ '': '' @ py_repr (snd kv)) d) @ ''}''"

definition str_output :: "pydict option \<Rightarrow> string" where
  "str_output out = (case out of None \<Rightarrow> ''None'' | Some d \<Rightarrow> py_repr (PDict d))"

text \<open>\<open>not task.output\<close>: \<open>None\<close> and the empty dictionary are falsy.\<close>

definition falsy :: "pydict option \<Rightarrow> bool" where
  "falsy out = (case out of None \<Rightarrow> True | Some d \<Rightarrow> d = [])"

section \<open>The engine: roster, assignment, execution, decisions\<close>

text \<open>The \<open>Agent(...)\<close> constructor with the defaults of the dataclass.\<close>

definition Agent :: "string \<Rightarrow> string \<Rightarrow> AgentType \<Rightarrow> string list \<Rightarrow> string list \<Rightarrow> agent" where
  "Agent i n ty caps specs =
     \<lparr>a_id = i, a_name = n, a_type = ty, a_capabilities = caps, a_status = ''ready'',
      a_current_task = None, a_performance_score = 1, a_specializations = specs\<rparr>"

definition initialize_agents :: "(string \<times> agent) list" where
  "initialize_agents =
     [(''claude_analyst'', Agent ''claude_analyst'' ''Claude Strategic Analyst'' ANALYST
         [''architecture_design'', ''requirement_analysis'', ''strategic_planning'',
          ''risk_assessment'']
         [''system_design'', ''scalability'', ''best_practices'']),
      (''codex_impl'', Agent ''codex_impl'' ''Codex Implementation Engine'' IMPLEMENTER
         [''code_generation'', ''api_development'', ''database_design'', ''optimization'']
         [''full_stack'', ''microservices'', ''cloud_native'']),
      (''claude2_validator'', Agent ''claude2_validator'' ''Claude2 Quality Validator'' VALIDATOR
         [''code_review'', ''test_generation'', ''security_audit'', ''performance_testing'']
         [''quality_assurance'', ''security'', ''compliance'']),
      (''ide_integrator'', Agent ''ide_integrator'' ''IDE Integration Suite'' INTEGRATOR
         [''deployment'', ''monitoring'', ''debugging'', ''environment_setup'']
         [''ci_cd'', ''containerization'', ''observability'']),
      (''deepseek_reasoner'', Agent ''deepseek_reasoner'' ''DeepSeek Advanced Reasoner'' REASONER
         [''deep_reasoning'', ''algorithm_analysis'', ''performance_optimization'',
          ''security_analysis'', ''architecture_review'']
         [''complexity_analysis'', ''bottleneck_detection'', ''optimization''])]"

text \<open>
  \<open>__init__\<close>; the project id is the \<open>uuid4\<close> drawn there. The directories made by
  \<open>_setup_project_structure\<close> are outside the state.
\<close>

definition init :: "string \<Rightarrow> orchestrator" where
  "init pid =
     \<lparr>project_id = pid, agents = initialize_agents, tasks = [], signals = [], ctxt = None,
      execution_log = [], spawned = [], awaiting = []\<rparr>"

definition log_event :: "orchestrator \<Rightarrow> nat \<Rightarrow> string \<Rightarrow> pydict \<Rightarrow> orchestrator" where
  "log_event st now event_type data =
     st\<lparr>execution_log := execution_log st @
          [\<lparr>l_timestamp = now, l_event_type = event_type, l_data = data\<rparr>]\<rparr>"

text \<open>
  A task or agent object is reached through its dictionary key; mutating a field of the
  object is an update of the entry under that key.
\<close>

definition update_entry :: "'k \<Rightarrow> ('v \<Rightarrow> 'v) \<Rightarrow> ('k \<times> 'v) list \<Rightarrow> ('k \<times> 'v) list" where
  "update_entry k f d = map (\<lambda>kv. if fst kv = k then (fst kv, f (snd kv)) else kv) d"

text \<open>\<open>_dependencies_met\<close>: the loop returns \<open>False\<close> at the first unmet dependency.\<close>

fun dependencies_met_loop :: "(string \<times> task) list \<Rightarrow> string list \<Rightarrow> bool" where
  "dependencies_met_loop ts [] = True"
| "dependencies_met_loop ts (dep_id # rest) =
     (case map_of ts dep_id of
        None \<Rightarrow> False
      | Some dep_task \<Rightarrow>
          if t_status dep_task \<noteq> COMPLETED then False else dependencies_met_loop ts rest)"

definition dependencies_met :: "orchestrator \<Rightarrow> task \<Rightarrow> bool" where
  "dependencies_met st task = dependencies_met_loop (tasks st) (t_dependencies task)"

text \<open>The loop of \<open>_assign_task\<close> over \<open>self.agents.items()\<close>, up to its \<open>break\<close>.\<close>

fun find_ready_agent :: "(string \<times> agent) list \<Rightarrow> AgentType \<Rightarrow> string option" where
  "find_ready_agent [] ty = None"
| "find_ready_agent ((agent_id, agent) # rest) ty =
     (if a_type agent = ty \<and> a_status agent = ''ready'' then Some agent_id
      else find_ready_agent rest ty)"

text \<open>
  \<open>_assign_task\<close>. \<open>asyncio.create_task\<close> only records the coroutine: it runs after
  the caller has given up control, so the assignment appends it to \<open>spawned\<close>.
\<close>

definition assign_task :: "orchestrator \<Rightarrow> string \<Rightarrow> orchestrator" where
  "assign_task st tid =
     (case map_of (tasks st) tid of
        None \<Rightarrow> st
      | Some task \<Rightarrow>
          if \<not> dependencies_met st task then st
          else (case find_ready_agent (agents st) (t_agent_type task) of
                  None \<Rightarrow> st
                | Some agent_id \<Rightarrow>
                    st\<lparr>tasks := update_entry tid
                          (\<lambda>t. t\<lparr>t_assigned_to := Some agent_id, t_status := ASSIGNED\<rparr>) (tasks st),
                       agents := update_entry agent_id
                          (\<lambda>a. a\<lparr>a_status := ''working'', a_current_task := Some (t_id task)\<rparr>)
                          (agents st),
                       spawned := spawned st @ [(tid, agent_id)]\<rparr>))"

text \<open>\<open>_check_pending_tasks\<close>: one pass over the task dictionary in its order.\<close>

definition check_pending_tasks :: "orchestrator \<Rightarrow> orchestrator" where
  "check_pending_tasks st =
     foldl (\<lambda>s tid. case map_of (tasks s) tid of
                       None \<Rightarrow> s
                     | Some task \<Rightarrow> if t_status task = PENDING then assign_task s tid else s)
       st (map fst (tasks st))"

definition Signal :: "string \<Rightarrow> SignalType \<Rightarrow> string option \<Rightarrow> pydict \<Rightarrow> nat \<Rightarrow> signal" where
  "Signal i ty src data now =
     \<lparr>s_id = i, s_type = ty, s_source = src, s_data = data, s_confidence = 1,
      s_timestamp = now\<rparr>"

text \<open>
  \<open>process_requirement\<close>. None of its \<open>await\<close>s suspends, so it is one atomic step.
  \<open>req_id\<close> is the first \<open>uuid4\<close> drawn, \<open>uuid4\<close> the ones drawn by the decomposer.
\<close>

definition process_requirement ::
    "orchestrator \<Rightarrow> string \<Rightarrow> int \<Rightarrow> string \<Rightarrow> (nat \<Rightarrow> string) \<Rightarrow> nat \<Rightarrow> string \<times> orchestrator" where
  "process_requirement st requirement priority req_id uuid4 now =
     (let st1 = st\<lparr>signals := signals st @
                   [Signal req_id REQUIREMENT (Some ''user'')
                      [(''content'', PStr requirement), (''priority'', PInt priority)] now]\<rparr>;
          new_tasks = decompose_requirement requirement uuid4 now;
          st2 = foldl (\<lambda>s task. assign_task (s\<lparr>tasks := dict_set (tasks s) (t_id task) task\<rparr>)
                                   (t_id task)) st1 new_tasks
      in (req_id, log_event st2 now ''requirement_processed''
                    [(''id'', PStr req_id), (''requirement'', PStr requirement),
                     (''task_count'', PInt (int (length new_tasks)))]))"

text \<open>
  What the worker call \<open>bridge.execute_task\<close> does is outside the engine: it raises, or
  it returns a dictionary.
\<close>

datatype worker_outcome = Raises | Returns pydict

datatype py_error = AttributeError | TypeError

text \<open>
  The simulated output, chosen by the type of the executing agent. An agent of a type
  without a branch (integrator, creative) leaves the output as it was.
\<close>

definition simulated_output :: "AgentType \<Rightarrow> string \<Rightarrow> pydict option \<Rightarrow> pydict option" where
  "simulated_output ty description out =
     (if ty = ANALYST then
        (if str_contains ''hello world'' (lower description)
            \<or> str_contains ''webpage'' (lower description)
         then Some [(''architecture'', PStr ''static_website''),
                    (''components'', PList [PStr ''html'', PStr ''css'']),
                    (''technology'', PStr ''HTML/CSS''),
                    (''complexity'', PStr ''simple'')]
         else Some [(''architecture'', PStr ''microservices''),
                    (''components'', PList [PStr ''api'', PStr ''database'', PStr ''cache'',
                                            PStr ''queue'']),
                    (''decisions_needed'', PList [PStr ''database_choice'',
                                                  PStr ''deployment_platform''])])
      else if ty = IMPLEMENTER then
        Some [(''code_generated'', PBool True),
              (''files'', PList [PStr ''app.py'', PStr ''models.py'', PStr ''api.py'']),
              (''lines_of_code'', PInt 500)]
      else if ty = VALIDATOR then
        Some [(''tests_passed'', PBool True),
              (''coverage'', PInt 85),
              (''issues_found'', PInt 2),
              (''security_score'', PStr ''A''),
              (''execution_metadata'', PDict
                 [(''runnable'', PBool True),
                  (''execution_type'', PStr ''web_server''),
                  (''command'', PStr ''python3 hello_world.py''),
                  (''port'', PInt 8000),
                  (''url'', PStr ''http://localhost:8000''),
                  (''framework'', PStr ''FastAPI''),
                  (''startup_time'', PInt 2)])]
      else if ty = REASONER then
        Some [(''analysis_complete'', PBool True),
              (''optimizations'', PList [PStr ''Use connection pooling for database'',
                                         PStr ''Implement caching layer'',
                                         PStr ''Add request rate limiting'']),
              (''performance_metrics'', PDict
                 [(''time_complexity'', PStr ''O(n log n)''),
                  (''space_complexity'', PStr ''O(n)''),
                  (''bottlenecks'', PList [PStr ''database queries'',
                                           PStr ''external API calls''])]),
              (''security_recommendations'', PList [PStr ''Add input validation'',
                                                    PStr ''Implement CSRF protection'',
                                                    PStr ''Use prepared statements''])]
      else out)"

text \<open>
  \<open>_create_decision_signal\<close>; \<open>task.output.get\<close> on \<open>None\<close> is an AttributeError.
\<close>

definition decision_signal :: "task \<Rightarrow> pydict \<Rightarrow> string \<Rightarrow> nat \<Rightarrow> signal" where
  "decision_signal task out sig_id now =
     Signal sig_id DECISION_NEEDED (t_assigned_to task)
       [(''task_id'', PStr (t_id task)),
        (''decisions'', (case map_of out ''decisions_needed'' of
                           None \<Rightarrow> PList [] | Some v \<Rightarrow> v)),
        (''context'', PDict out)] now"

definition create_decision_signal ::
    "orchestrator \<Rightarrow> task \<Rightarrow> string \<Rightarrow> nat \<Rightarrow> py_error + orchestrator" where
  "create_decision_signal st task sig_id now =
     (case t_output task of
        None \<Rightarrow> Inl AttributeError
      | Some out \<Rightarrow> Inr (st\<lparr>signals := signals st @ [decision_signal task out sig_id now]\<rparr>))"

text \<open>
  \<open>_execute_task\<close> suspends once, in the worker call (and, when that raises, in the
  \<open>sleep\<close> of the handler, before anything else is written). \<open>execute_task_start\<close> is the
  part before the suspension, \<open>execute_task_finish\<close> the part after it, given the outcome
  of the call. \<open>_save_implementation_to_workspace\<close> writes a file, catches every exception
  and touches no field of the engine.
\<close>

definition execute_task_start :: "orchestrator \<Rightarrow> string \<Rightarrow> string \<Rightarrow> nat \<Rightarrow> orchestrator" where
  "execute_task_start st tid aid now =
     (case (map_of (tasks st) tid, map_of (agents st) aid) of
        (Some task, Some agent) \<Rightarrow>
          log_event (st\<lparr>tasks := update_entry tid (\<lambda>t. t\<lparr>t_status := IN_PROGRESS\<rparr>) (tasks st)\<rparr>)
            now ''task_started''
            [(''task_id'', PStr (t_id task)), (''agent_id'', PStr (a_id agent)),
             (''description'', PStr (t_description task))]
      | _ \<Rightarrow> st)"

text \<open>The \<open>try\<close>/\<open>except\<close> around the worker call: the result, or \<open>None\<close>.\<close>

definition received_output :: "worker_outcome \<Rightarrow> pydict option" where
  "received_output outcome = (case outcome of Returns result \<Rightarrow> Some result | Raises \<Rightarrow> None)"

text \<open>The block under \<open>if not task.output\<close>: the output the task ends with.\<close>

definition final_output :: "agent \<Rightarrow> task \<Rightarrow> worker_outcome \<Rightarrow> pydict option" where
  "final_output agent task outcome =
     (let out0 = received_output outcome
      in if falsy out0 then simulated_output (a_type agent) (t_description task) out0
         else out0)"

definition execute_task_finish ::
    "orchestrator \<Rightarrow> string \<Rightarrow> string \<Rightarrow> worker_outcome \<Rightarrow> string \<Rightarrow> nat \<Rightarrow> py_error + orchestrator" where
  "execute_task_finish st tid aid outcome sig_id now =
     (case (map_of (tasks st) tid, map_of (agents st) aid) of
        (Some task, Some agent) \<Rightarrow>
          (let out = final_output agent task outcome;
               done = task\<lparr>t_output := out, t_status := COMPLETED, t_completed_at := Some now\<rparr>;
               st1 = st\<lparr>tasks := update_entry tid
                          (\<lambda>t. t\<lparr>t_output := out, t_status := COMPLETED,
                                 t_completed_at := Some now\<rparr>) (tasks st),
                        agents := update_entry aid
                          (\<lambda>a. a\<lparr>a_status := ''ready'', a_current_task := None\<rparr>) (agents st)\<rparr>;
               r = (if str_contains ''decisions_needed'' (str_output out)
                    then create_decision_signal st1 done sig_id now else Inr st1)
           in case r of
                Inl e \<Rightarrow> Inl e
              | Inr st2 \<Rightarrow>
                  Inr (log_event (check_pending_tasks st2) now ''task_completed''
                         [(''task_id'', PStr (t_id task)), (''agent_id'', PStr (a_id agent)),
                          (''duration'', PInt (int now - int (t_created_at task)))]))
      | _ \<Rightarrow> Inr st)"

text \<open>
  The signals an execution appends when it completes, one or none: the test
  \<open>"decisions_needed" in str(task.output)\<close> of \<open>_execute_task\<close> and the signal of
  \<open>_create_decision_signal\<close> for the completed task, as a function of the outcome.
\<close>

definition decision_signals :: "agent \<Rightarrow> task \<Rightarrow> worker_outcome \<Rightarrow> string \<Rightarrow> nat \<Rightarrow> signal list" where
  "decision_signals agent task outcome sig_id now =
     (case final_output agent task outcome of
        None \<Rightarrow> []
      | Some out \<Rightarrow>
          if str_contains ''decisions_needed'' (str_output (Some out))
          then [decision_signal
                  (task\<lparr>t_output := Some out, t_status := COMPLETED, t_completed_at := Some now\<rparr>)
                  out sig_id now]
          else [])"

text \<open>\<open>make_decision\<close>: the first signal with the id, or failure.\<close>

definition ProjectContext :: "string \<Rightarrow> string \<Rightarrow> string \<Rightarrow> nat \<Rightarrow> project_context" where
  "ProjectContext pid n descr now =
     \<lparr>c_project_id = pid, c_name = n, c_description = descr, c_requirements = [],
      c_decisions = [], c_patterns = [], c_metrics = [], c_created_at = now,
      c_updated_at = now\<rparr>"

definition make_decision :: "orchestrator \<Rightarrow> string \<Rightarrow> string \<Rightarrow> nat \<Rightarrow> bool \<times> orchestrator" where
  "make_decision st signal_id decision now =
     (case find (\<lambda>s. s_id s = signal_id) (signals st) of
        None \<Rightarrow> (False, st)
      | Some sig \<Rightarrow>
          (let c = (case ctxt st of
                      None \<Rightarrow> ProjectContext (project_id st) ''Project''
                                ''AI-augmented development'' now
                    | Some c \<Rightarrow> c);
               c' = c\<lparr>c_decisions := dict_set (c_decisions c) signal_id
                       \<lparr>d_decision = decision, d_timestamp = now,
                        d_signal_data = s_data sig\<rparr>\<rparr>
           in (True, log_event (st\<lparr>ctxt := Some c'\<rparr>) now ''decision_made''
                       [(''signal_id'', PStr signal_id), (''decision'', PStr decision)])))"

section \<open>Runs of the engine\<close>

text \<open>
  The engine runs on one event loop, so a run is a sequence of atomic steps: a requirement
  is submitted, a spawned execution starts and suspends in the worker call, a suspended
  execution resumes with the outcome of the call, a decision is recorded. The ids drawn by
  \<open>uuid4\<close> for new tasks are distinct and not in use; a step that is not enabled, or an
  execution that dies with an exception, gives \<open>None\<close>.
\<close>

datatype event =
    Submit string int string "nat \<Rightarrow> string" nat
  | Start string string nat
  | Finish string string worker_outcome string nat
  | Decide string string nat

definition fresh_ids :: "orchestrator \<Rightarrow> (nat \<Rightarrow> string) \<Rightarrow> bool" where
  "fresh_ids st uuid4 =
     (distinct (map uuid4 [0..<6]) \<and>
      list_all (\<lambda>k. uuid4 k \<notin> set (map fst (tasks st))) [0..<6])"

fun fire :: "orchestrator \<Rightarrow> event \<Rightarrow> orchestrator option" where
  "fire st (Submit requirement priority req_id uuid4 now) =
     (if fresh_ids st uuid4
      then Some (snd (process_requirement st requirement priority req_id uuid4 now))
      else None)"
| "fire st (Start tid aid now) =
     (if (tid, aid) \<in> set (spawned st)
      then Some (execute_task_start
                   (st\<lparr>spawned := remove1 (tid, aid) (spawned st),
                       awaiting := awaiting st @ [(tid, aid)]\<rparr>) tid aid now)
      else None)"
| "fire st (Finish tid aid outcome sig_id now) =
     (if (tid, aid) \<in> set (awaiting st)
      then (case execute_task_finish (st\<lparr>awaiting := remove1 (tid, aid) (awaiting st)\<rparr>)
                   tid aid outcome sig_id now of
              Inl e \<Rightarrow> None
            | Inr st' \<Rightarrow> Some st')
      else None)"
| "fire st (Decide signal_id decision now) =
     Some (snd (make_decision st signal_id decision now))"

fun run :: "orchestrator \<Rightarrow> event list \<Rightarrow> orchestrator option" where
  "run st [] = Some st"
| "run st (e # es) = (case fire st e of None \<Rightarrow> None | Some st' \<Rightarrow> run st' es)"

text \<open>Observations of a state used in the statements below.\<close>

definition task_status :: "orchestrator \<Rightarrow> string \<Rightarrow> TaskStatus option" where
  "task_status st tid = map_option t_status (map_of (tasks st) tid)"

definition task_output :: "orchestrator \<Rightarrow> string \<Rightarrow> pydict option" where
  "task_output st tid = (case map_of (tasks st) tid of None \<Rightarrow> None | Some t \<Rightarrow> t_output t)"

definition signals_of_type :: "SignalType \<Rightarrow> orchestrator \<Rightarrow> signal list" where
  "signals_of_type ty st = filter (\<lambda>s. s_type s = ty) (signals st)"

definition dependencies_completed :: "orchestrator \<Rightarrow> string list \<Rightarrow> bool" where
  "dependencies_completed st deps =
     list_all (\<lambda>dep_id. task_status st dep_id = Some COMPLETED) deps"

text \<open>
  The invariant of the runs: a task that has left the pending state has all its
  dependencies completed; no task is in the blocked or review state; every execution that
  is spawned or suspended belongs to one task, in the assigned or the in-progress state,
  and to an agent of the roster; the signal log holds requirement and decision signals only.
\<close>

definition engine_inv :: "orchestrator \<Rightarrow> bool" where
  "engine_inv st \<longleftrightarrow>
     (\<forall>tid t. map_of (tasks st) tid = Some t \<longrightarrow> t_status t \<noteq> PENDING \<longrightarrow>
        dependencies_completed st (t_dependencies t)) \<and>
     list_all (\<lambda>kv. t_status (snd kv) \<noteq> BLOCKED \<and> t_status (snd kv) \<noteq> REVIEW) (tasks st) \<and>
     distinct (map fst (spawned st @ awaiting st)) \<and>
     list_all (\<lambda>e. task_status st (fst e) = Some ASSIGNED \<and> map_of (agents st) (snd e) \<noteq> None)
       (spawned st) \<and>
     list_all (\<lambda>e. task_status st (fst e) = Some IN_PROGRESS \<and> map_of (agents st) (snd e) \<noteq> None)
       (awaiting st) \<and>
     list_all (\<lambda>s. s_type s = REQUIREMENT \<or> s_type s = DECISION_NEEDED) (signals st)"

section \<open>What a worker is handed (agent\_bridge.py, api\_server.py)\<close>

definition agent_type_value :: "AgentType \<Rightarrow> string" where
  "agent_type_value ty =
     (case ty of ANALYST \<Rightarrow> ''analyst'' | IMPLEMENTER \<Rightarrow> ''implementer''
      | VALIDATOR \<Rightarrow> ''validator'' | INTEGRATOR \<Rightarrow> ''integrator''
      | CREATIVE \<Rightarrow> ''creative'' | REASONER \<Rightarrow> ''reasoner'')"

text \<open>The dictionary \<open>_execute_task\<close> passes to \<open>bridge.execute_task\<close>.\<close>

definition task_payload :: "task \<Rightarrow> agent \<Rightarrow> pydict" where
  "task_payload task agent =
     [(''id'', PStr (t_id task)), (''description'', PStr (t_description task)),
      (''priority'', PInt (t_priority task)),
      (''agent_type'', PStr (agent_type_value (a_type agent)))]"

text \<open>\<open>AgentBridge.execute_task\<close>: \<open>context=task.get("context", {})\<close>.\<close>

definition bridge_context :: "pydict \<Rightarrow> pyval" where
  "bridge_context payload =
     (case map_of payload ''context'' of None \<Rightarrow> PDict [] | Some c \<Rightarrow> c)"

text \<open>
  The validation connector: \<open>implementer_output = context.get('implementer_result', {})\<close>.
\<close>

definition implementer_output :: "pyval \<Rightarrow> py_error + pyval" where
  "implementer_output c =
     (case c of
        PDict d \<Rightarrow> Inr (case map_of d ''implementer_result'' of None \<Rightarrow> PDict [] | Some r \<Rightarrow> r)
      | _ \<Rightarrow> Inl AttributeError)"

text \<open>
  \<open>process_requirement_tasks\<close> of the API server, the construction of \<open>context\<close> for a
  task whose \<open>assigned_to\<close> is set: \<open>"implementer" in t.assigned_to\<close> is a TypeError on a
  task that has no agent yet.
\<close>

definition build_context ::
    "string \<Rightarrow> task \<Rightarrow> string \<Rightarrow> task list \<Rightarrow> (string \<times> pydict) list \<Rightarrow> py_error + pydict" where
  "build_context requirement_id task assigned_to requirement_tasks task_results =
     (let context = [(''requirement_id'', PStr requirement_id),
                     (''priority'', PInt (t_priority task))]
      in if str_contains ''validator'' assigned_to then
           (if list_ex (\<lambda>t. t_assigned_to t = None) requirement_tasks then Inl TypeError
            else (case filter (\<lambda>t. case t_assigned_to t of
                                     None \<Rightarrow> False
                                   | Some a \<Rightarrow> str_contains ''implementer'' a) requirement_tasks of
                    [] \<Rightarrow> Inr context
                  | impl_task # rest \<Rightarrow>
                      (case map_of task_results (t_id impl_task) of
                         None \<Rightarrow> Inr context
                       | Some r \<Rightarrow> Inr (dict_set context ''implementer_result'' (PDict r)))))
         else Inr context)"

section \<open>States used as concrete inputs\<close>

definition demo_one_blocked :: orchestrator where
  "demo_one_blocked =
     (init ''p'')\<lparr>tasks := [(''a'', (Task ''a'' ''x'' ANALYST 5 [] 0)\<lparr>t_status := BLOCKED\<rparr>),
                            (''b'', Task ''b'' ''y'' ANALYST 5 [''a''] 0)]\<rparr>"

definition demo_two_blocked :: orchestrator where
  "demo_two_blocked =
     (init ''p'')\<lparr>tasks := [(''a'', (Task ''a'' ''x'' ANALYST 5 [] 0)\<lparr>t_status := BLOCKED\<rparr>),
                            (''b'', (Task ''b'' ''y'' ANALYST 5 [''a''] 0)\<lparr>t_status := BLOCKED\<rparr>)]\<rparr>"

text \<open>
  A run: the requirement ``Build an API'' is submitted (the ids drawn are \<open>t0\<close>, \<open>t1\<close>,
  ...), the analysis task \<open>t0\<close> is assigned to the analyst at once and its execution
  starts. \<open>demo_failed_reply\<close> is a worker result that reports failure,
  \<open>demo_chatty_reply\<close> one that succeeds and mentions decisions in its text only.
\<close>

definition demo_ids :: "nat \<Rightarrow> string" where
  "demo_ids k = CHR ''t'' # str_nat k"

definition demo_events :: "event list" where
  "demo_events = [Submit ''Build an API'' 5 ''r1'' demo_ids 0, Start ''t0'' ''claude_analyst'' 1]"

definition demo_started :: orchestrator where
  "demo_started = the (run (init ''p'') demo_events)"

definition demo_failed_reply :: pydict where
  "demo_failed_reply =
     [(''success'', PBool False), (''error'', PStr ''backend unavailable''),
      (''agent'', PStr ''claude''),
      (''task_id'', PStr ''t0''), (''agent_id'', PStr ''claude_analyst'')]"

definition demo_chatty_reply :: pydict where
  "demo_chatty_reply =
     [(''success'', PBool True), (''response'', PStr ''There are no decisions_needed here.''),
      (''agent'', PStr ''claude''), (''timestamp'', PStr ''2025-06-21T21:18:43''),
      (''task_id'', PStr ''t0''), (''agent_id'', PStr ''claude_analyst'')]"

text \<open>
  The run continued until the validation task \<open>t3\<close> is assigned: analysis and planning
  complete with simulated outputs, the implementation task \<open>t2\<close> completes on
  \<open>codex_impl\<close> with \<open>demo_impl_reply\<close>.
\<close>

definition demo_impl_reply :: pydict where
  "demo_impl_reply =
     [(''success'', PBool True), (''response'', PStr ''print(1)''),
      (''agent'', PStr ''codex''),
      (''task_id'', PStr ''t2''), (''agent_id'', PStr ''codex_impl'')]"

definition demo_validating :: orchestrator where
  "demo_validating =
     the (run demo_started
            [Finish ''t0'' ''claude_analyst'' Raises ''s1'' 2,
             Start ''t1'' ''claude_analyst'' 3,
             Finish ''t1'' ''claude_analyst'' Raises ''s2'' 4,
             Start ''t2'' ''codex_impl'' 5,
             Finish ''t2'' ''codex_impl'' (Returns demo_impl_reply) ''s3'' 6])"

text \<open>
  An engine whose integration agent is executing a deployment task: a task of a type the
  decomposer never emits, as \<open>_execute_task\<close> would receive it.
\<close>

definition demo_integrating :: orchestrator where
  "demo_integrating =
     (init ''p'')\<lparr>
        agents := update_entry ''ide_integrator''
                    (\<lambda>a. a\<lparr>a_status := ''working'', a_current_task := Some ''i0''\<rparr>)
                    initialize_agents,
        tasks := [(''i0'', (Task ''i0'' ''Deploy the service'' INTEGRATOR 5 [] 0)
                             \<lparr>t_status := IN_PROGRESS, t_assigned_to := Some ''ide_integrator''\<rparr>)],
        awaiting := [(''i0'', ''ide_integrator'')]\<rparr>"

section \<open>Verified properties\<close>

lemma startswith_iff: "startswith s p \<longleftrightarrow> (\<exists>post. s = p @ post)"
  by (induction s p rule: startswith.induct) auto

lemma str_contains_iff: "str_contains sub s \<longleftrightarrow> (\<exists>pre post. s = pre @ sub @ post)"
proof (induction s)
  case Nil
  then show ?case by auto
next
  case (Cons c cs)
  show ?case
  proof
    assume "str_contains sub (c # cs)"
    then consider "startswith (c # cs) sub" | "str_contains sub cs" by auto
    then show "\<exists>pre post. c # cs = pre @ sub @ post"
    proof cases
      case 1
      then obtain post where "c # cs = sub @ post" by (auto simp: startswith_iff)
      then have "c # cs = [] @ sub @ post" by simp
      then show ?thesis by blast
    next
      case 2
      then obtain pre post where "cs = pre @ sub @ post" using Cons.IH by auto
      then have "c # cs = (c # pre) @ sub @ post" by simp
      then show ?thesis by blast
    qed
  next
    assume "\<exists>pre post. c # cs = pre @ sub @ post"
    then obtain pre post where e: "c # cs = pre @ sub @ post" by blast
    show "str_contains sub (c # cs)"
    proof (cases pre)
      case Nil
      with e have "startswith (c # cs) sub" by (auto simp: startswith_iff)
      then show ?thesis by simp
    next
      case (Cons a pre')
      with e have "cs = pre' @ sub @ post" by simp
      then have "str_contains sub cs" using Cons.IH by blast
      then show ?thesis by simp
    qed
  qed
qed

lemma count_status_le: "count_status s ts \<le> length ts"
  by (simp add: count_status_def)





lemma clamp_idle: "0 \<le> r \<Longrightarrow> r \<le> 1 \<Longrightarrow> max 0 (min 100 (85 - (r::real) * 20)) = 85 - 20 * r"
  by (simp add: max_def min_def)

lemma blocked_ratio_range:
  "0 \<le> real (count_status BLOCKED ts) / real (max (length ts) 1) \<and>
   real (count_status BLOCKED ts) / real (max (length ts) 1) \<le> 1"
proof -
  have "real (count_status BLOCKED ts) \<le> real (length ts)"
    using count_status_le [of BLOCKED ts] by simp
  also have "\<dots> \<le> real (max (length ts) 1)" by simp
  finally have "real (count_status BLOCKED ts) / real (max (length ts) 1) \<le> 1"
    by (simp add: divide_le_eq)
  then show ?thesis by simp
qed


lemma health_unclamped:
  "calculate_health_score st =
     85 - 20 * (real (count_status BLOCKED (tasks st)) / real (max (length (tasks st)) 1))"
  unfolding calculate_health_score_def Let_def
  using blocked_ratio_range [of "tasks st"] by (intro clamp_idle) auto

text \<open>
  Claim C10. The health score lies between 65 and 85 for every task map: the blocked ratio is
  at most 1, so the clamp never applies and the bounds 0 and 100 are not attained.
\<close>

theorem health_score_range_65_85:
  "65 \<le> calculate_health_score st \<and> calculate_health_score st \<le> 85 \<and>
   calculate_health_score st \<noteq> 0 \<and> calculate_health_score st \<noteq> 100 \<and>
   calculate_health_score st =
     85 - 20 * (real (count_status BLOCKED (tasks st)) / real (max (length (tasks st)) 1))"
  unfolding health_unclamped using blocked_ratio_range [of "tasks st"] by linarith

text \<open>
  Claim C8. The health score lies between 0 and 100 for every task map, the empty one
  included, and of two task maps with the same number of tasks the one with at least as
  many blocked tasks has the health score that is at most the other's.
\<close>

theorem health_score_bounded_monotone:
  "0 \<le> calculate_health_score st \<and> calculate_health_score st \<le> 100 \<and>
   (length (tasks st1) = length (tasks st2) \<and>
    count_status BLOCKED (tasks st1) \<le> count_status BLOCKED (tasks st2)
    \<longrightarrow> calculate_health_score st2 \<le> calculate_health_score st1)"
proof -
  have a: "0 \<le> calculate_health_score st \<and> calculate_health_score st \<le> 100"
    by (simp add: calculate_health_score_def Let_def)
  have b: "calculate_health_score st2 \<le> calculate_health_score st1"
    if l: "length (tasks st1) = length (tasks st2)"
      and c: "count_status BLOCKED (tasks st1) \<le> count_status BLOCKED (tasks st2)"
  proof -
    have "real (count_status BLOCKED (tasks st1)) / real (max (length (tasks st1)) 1)
        \<le> real (count_status BLOCKED (tasks st2)) / real (max (length (tasks st2)) 1)"
      unfolding l using c by (intro divide_right_mono) auto
    then show ?thesis unfolding health_unclamped by linarith
  qed
  from a b show ?thesis by blast
qed

text \<open>Two tasks, one blocked against both blocked: the score falls from 75 to 65.\<close>

theorem health_score_bounded_monotone_witness:
  "length (tasks demo_one_blocked) = length (tasks demo_two_blocked) \<and>
   count_status BLOCKED (tasks demo_one_blocked) \<le> count_status BLOCKED (tasks demo_two_blocked) \<and>
   calculate_health_score demo_two_blocked \<le> calculate_health_score demo_one_blocked \<and>
   calculate_health_score demo_one_blocked = 75 \<and>
   calculate_health_score demo_two_blocked = 65"
proof -
  have l: "length (tasks demo_one_blocked) = length (tasks demo_two_blocked)"
    by (simp add: demo_one_blocked_def demo_two_blocked_def)
  have c: "count_status BLOCKED (tasks demo_one_blocked)
      \<le> count_status BLOCKED (tasks demo_two_blocked)"
    by (simp add: demo_one_blocked_def demo_two_blocked_def count_status_def Task_def)
  have v1: "calculate_health_score demo_one_blocked = 75"
    by (simp add: demo_one_blocked_def calculate_health_score_def count_status_def Task_def)
  have v2: "calculate_health_score demo_two_blocked = 65"
    by (simp add: demo_two_blocked_def calculate_health_score_def count_status_def Task_def)
  from health_score_bounded_monotone [of demo_one_blocked demo_one_blocked demo_two_blocked] l c
  have "calculate_health_score demo_two_blocked \<le> calculate_health_score demo_one_blocked"
    by blast
  with l c v1 v2 show ?thesis by simp
qed

lemma map_of_update_entry:
  "map_of (update_entry k f d) k' = (if k' = k then map_option f (map_of d k) else map_of d k')"
  by (induction d) (auto simp: update_entry_def)

lemma map_of_dict_set:
  "map_of (dict_set d k v) k' = (if k' = k then Some v else map_of d k')"
  by (induction d k v rule: dict_set.induct) auto

lemma foldl_preserves:
  assumes "P s" and "\<And>s x. P s \<Longrightarrow> P (f s x)"
  shows "P (foldl f s xs)"
  using assms(1) by (induction xs arbitrary: s) (auto intro: assms(2))

lemma signals_log_event [simp]: "signals (log_event st now ev data) = signals st"
  by (simp add: log_event_def)

lemma signals_assign_task [simp]: "signals (assign_task st tid) = signals st"
  by (simp add: assign_task_def split: option.splits)

lemma signals_check_pending_tasks [simp]: "signals (check_pending_tasks st) = signals st"
proof -
  have "signals (foldl (\<lambda>s tid. case map_of (tasks s) tid of
                       None \<Rightarrow> s
                     | Some task \<Rightarrow> if t_status task = PENDING then assign_task s tid else s)
       st ks) = signals st" for ks
    by (rule foldl_preserves [where P = "\<lambda>s. signals s = signals st"])
       (auto split: option.splits)
  then show ?thesis by (simp add: check_pending_tasks_def)
qed

lemma signals_process_requirement:
  "signals (snd (process_requirement st requirement priority req_id uuid4 now)) =
     signals st @ [Signal req_id REQUIREMENT (Some ''user'')
                     [(''content'', PStr requirement), (''priority'', PInt priority)] now]"
proof -
  let ?sg = "signals st @ [Signal req_id REQUIREMENT (Some ''user'')
                     [(''content'', PStr requirement), (''priority'', PInt priority)] now]"
  have "signals (foldl (\<lambda>s task. assign_task (s\<lparr>tasks := dict_set (tasks s) (t_id task) task\<rparr>)
                                   (t_id task)) s0 ts) = signals s0" for s0 ts
    by (rule foldl_preserves [where P = "\<lambda>s. signals s = signals s0"]) auto
  then show ?thesis by (simp add: process_requirement_def Let_def)
qed

lemma signals_execute_task_start [simp]:
  "signals (execute_task_start st tid aid now) = signals st"
  by (simp add: execute_task_start_def split: option.splits)

lemma signals_make_decision [simp]:
  "signals (snd (make_decision st signal_id decision now)) = signals st"
  by (simp add: make_decision_def Let_def split: option.splits)

lemma no_decision_in_None: "\<not> str_contains ''decisions_needed'' (str_output None)"
  by (simp add: str_output_def)

text \<open>The signal, if any, that the completion of a task appends.\<close>

lemma execute_task_finish_Inr:
  assumes t: "map_of (tasks st) tid = Some task" and a: "map_of (agents st) aid = Some agent"
  shows "execute_task_finish st tid aid outcome sig_id now =
     Inr (log_event (check_pending_tasks
            (st\<lparr>tasks := update_entry tid
                   (\<lambda>t. t\<lparr>t_output := final_output agent task outcome, t_status := COMPLETED,
                          t_completed_at := Some now\<rparr>) (tasks st),
                agents := update_entry aid
                   (\<lambda>a. a\<lparr>a_status := ''ready'', a_current_task := None\<rparr>) (agents st),
                signals := signals st @ decision_signals agent task outcome sig_id now\<rparr>))
          now ''task_completed''
          [(''task_id'', PStr (t_id task)), (''agent_id'', PStr (a_id agent)),
           (''duration'', PInt (int now - int (t_created_at task)))])"
proof (cases "final_output agent task outcome")
  case None
  then show ?thesis
    using t a no_decision_in_None
    by (simp add: execute_task_finish_def decision_signals_def Let_def)
next
  case (Some out)
  then show ?thesis
    using t a
    by (simp add: execute_task_finish_def decision_signals_def Let_def
        create_decision_signal_def)
qed


lemma dependencies_met_loop_iff:
  "dependencies_met_loop ts deps \<longleftrightarrow>
     (\<forall>d\<in>set deps. \<exists>dt. map_of ts d = Some dt \<and> t_status dt = COMPLETED)"
  by (induction deps) (auto split: option.splits)

lemma dependencies_met_iff: "dependencies_met st t = dependencies_completed st (t_dependencies t)"
  by (auto simp: dependencies_met_def dependencies_met_loop_iff dependencies_completed_def
      list_all_iff task_status_def)

lemma dependencies_completed_iff:
  "dependencies_completed st deps \<longleftrightarrow> (\<forall>d\<in>set deps. task_status st d = Some COMPLETED)"
  by (simp add: dependencies_completed_def list_all_iff)

lemma find_ready_agent_Some:
  "find_ready_agent ags ty = Some aid \<Longrightarrow> map_of ags aid \<noteq> None"
  by (induction ags ty rule: find_ready_agent.induct) (auto split: if_splits)

lemma assign_task_cases:
  assumes "P st"
    and "\<And>task aid. map_of (tasks st) tid = Some task \<Longrightarrow> dependencies_met st task \<Longrightarrow>
           find_ready_agent (agents st) (t_agent_type task) = Some aid \<Longrightarrow>
           P (st\<lparr>tasks := update_entry tid
                          (\<lambda>t. t\<lparr>t_assigned_to := Some aid, t_status := ASSIGNED\<rparr>) (tasks st),
                 agents := update_entry aid
                          (\<lambda>a. a\<lparr>a_status := ''working'', a_current_task := Some (t_id task)\<rparr>)
                          (agents st),
                 spawned := spawned st @ [(tid, aid)]\<rparr>)"
  shows "P (assign_task st tid)"
  using assms by (auto simp: assign_task_def split: option.splits)

lemma map_of_update_entry_None [simp]:
  "map_of (update_entry k f d) k' = None \<longleftrightarrow> map_of d k' = None"
  by (simp add: map_of_update_entry)

lemma list_all_update_entry:
  "list_all (\<lambda>kv. P (snd kv)) d \<Longrightarrow> (\<And>v. P v \<Longrightarrow> P (f v)) \<Longrightarrow>
     list_all (\<lambda>kv. P (snd kv)) (update_entry k f d)"
  by (induction d) (auto simp: update_entry_def)

lemma inv_assign:
  assumes i: "engine_inv st" and p: "task_status st tid = Some PENDING"
  shows "engine_inv (assign_task st tid)"
proof (rule assign_task_cases)
  show "engine_inv st" by (rule i)
next
  fix task aid
  assume t: "map_of (tasks st) tid = Some task" and d: "dependencies_met st task"
    and f: "find_ready_agent (agents st) (t_agent_type task) = Some aid"
  let ?f = "\<lambda>t. t\<lparr>t_assigned_to := Some aid, t_status := ASSIGNED\<rparr>"
  let ?g = "\<lambda>a. a\<lparr>a_status := ''working'', a_current_task := Some (t_id task)\<rparr>"
  let ?st = "st\<lparr>tasks := update_entry tid ?f (tasks st),
                agents := update_entry aid ?g (agents st),
                spawned := spawned st @ [(tid, aid)]\<rparr>"
  have ts: "task_status ?st k = (if k = tid then Some ASSIGNED else task_status st k)" for k
    using t by (simp add: task_status_def map_of_update_entry)
  have comp: "task_status ?st k = Some COMPLETED" if "task_status st k = Some COMPLETED" for k
    using that p by (auto simp: ts)
  have dc: "dependencies_completed ?st deps" if "dependencies_completed st deps" for deps
    using that comp by (auto simp: dependencies_completed_iff)
  have c1: "\<forall>k t. map_of (tasks ?st) k = Some t \<longrightarrow> t_status t \<noteq> PENDING \<longrightarrow>
        dependencies_completed ?st (t_dependencies t)"
  proof (intro allI impI)
    fix k u
    assume m: "map_of (tasks ?st) k = Some u" and np: "t_status u \<noteq> PENDING"
    show "dependencies_completed ?st (t_dependencies u)"
    proof (cases "k = tid")
      case True
      with m t have "t_dependencies u = t_dependencies task"
        by (auto simp: map_of_update_entry)
      with d show ?thesis by (simp add: dependencies_met_iff dc)
    next
      case False
      with m have "map_of (tasks st) k = Some u" by (simp add: map_of_update_entry)
      with i np have "dependencies_completed st (t_dependencies u)"
        by (auto simp: engine_inv_def)
      then show ?thesis by (rule dc)
    qed
  qed
  have c2: "list_all (\<lambda>kv. t_status (snd kv) \<noteq> BLOCKED \<and> t_status (snd kv) \<noteq> REVIEW) (tasks ?st)"
    using i by (auto simp: engine_inv_def intro!: list_all_update_entry)
  have nin: "tid \<notin> fst ` set (spawned st @ awaiting st)"
    using i p by (auto simp: engine_inv_def list_all_iff)
  have c3: "distinct (map fst (spawned ?st @ awaiting ?st))"
    using i nin by (auto simp: engine_inv_def)
  have c4: "list_all (\<lambda>e. task_status ?st (fst e) = Some ASSIGNED \<and> map_of (agents ?st) (snd e) \<noteq> None)
       (spawned ?st)"
    using i find_ready_agent_Some [OF f] by (auto simp: engine_inv_def list_all_iff ts)
  have c5: "list_all (\<lambda>e. task_status ?st (fst e) = Some IN_PROGRESS \<and> map_of (agents ?st) (snd e) \<noteq> None)
       (awaiting ?st)"
    using i p by (auto simp: engine_inv_def list_all_iff ts)
  have c6: "list_all (\<lambda>s. s_type s = REQUIREMENT \<or> s_type s = DECISION_NEEDED) (signals ?st)"
    using i by (simp add: engine_inv_def)
  from c1 c2 c3 c4 c5 c6 show "engine_inv ?st" unfolding engine_inv_def by blast
qed

lemma inv_log_event [simp]: "engine_inv (log_event st now ev data) = engine_inv st"
  by (simp add: engine_inv_def log_event_def dependencies_completed_def task_status_def)

lemma inv_check_pending_tasks: "engine_inv st \<Longrightarrow> engine_inv (check_pending_tasks st)"
  unfolding check_pending_tasks_def
  by (rule foldl_preserves [where P = engine_inv])
     (auto split: option.splits intro: inv_assign simp: task_status_def)

lemma inv_init: "engine_inv (init pid)"
  by (simp add: engine_inv_def init_def)

lemma inv_make_decision: "engine_inv st \<Longrightarrow> engine_inv (snd (make_decision st sid d now))"
  by (simp add: make_decision_def Let_def engine_inv_def dependencies_completed_def
      task_status_def log_event_def split: option.splits)

lemma set_dict_set: "set (dict_set d k v) \<subseteq> insert (k, v) (set d)"
  by (induction d k v rule: dict_set.induct) auto

lemma inv_insert:
  assumes i: "engine_inv st" and n: "map_of (tasks st) k = None" and p: "t_status t = PENDING"
  shows "engine_inv (st\<lparr>tasks := dict_set (tasks st) k t\<rparr>)"
proof -
  let ?st = "st\<lparr>tasks := dict_set (tasks st) k t\<rparr>"
  have ts: "task_status ?st j = (if j = k then Some PENDING else task_status st j)" for j
    using p by (simp add: task_status_def map_of_dict_set)
  have kn: "task_status st k = None" using n by (simp add: task_status_def)
  have old: "task_status ?st j = task_status st j" if "task_status st j \<noteq> None" for j
  proof (cases "j = k")
    case True
    with that kn show ?thesis by simp
  next
    case False
    then show ?thesis by (simp add: ts)
  qed
  have dc: "dependencies_completed ?st deps" if "dependencies_completed st deps" for deps
    unfolding dependencies_completed_iff
  proof
    fix d assume "d \<in> set deps"
    with that have c: "task_status st d = Some COMPLETED"
      by (simp add: dependencies_completed_iff)
    then have "task_status ?st d = task_status st d" by (intro old) simp
    with c show "task_status ?st d = Some COMPLETED" by simp
  qed
  have c1: "\<forall>j u. map_of (tasks ?st) j = Some u \<longrightarrow> t_status u \<noteq> PENDING \<longrightarrow>
        dependencies_completed ?st (t_dependencies u)"
  proof (intro allI impI)
    fix j u
    assume m: "map_of (tasks ?st) j = Some u" and np: "t_status u \<noteq> PENDING"
    from m np p have "j \<noteq> k" by (auto simp: map_of_dict_set)
    with m have "map_of (tasks st) j = Some u" by (simp add: map_of_dict_set)
    with i np have "dependencies_completed st (t_dependencies u)"
      by (auto simp: engine_inv_def)
    then show "dependencies_completed ?st (t_dependencies u)" by (rule dc)
  qed
  have c2: "list_all (\<lambda>kv. t_status (snd kv) \<noteq> BLOCKED \<and> t_status (snd kv) \<noteq> REVIEW) (tasks ?st)"
    using i p set_dict_set [of "tasks st" k t]
    by (auto simp: engine_inv_def list_all_iff)
  have c3: "distinct (map fst (spawned ?st @ awaiting ?st))"
    using i by (simp add: engine_inv_def)
  have c4: "list_all (\<lambda>e. task_status ?st (fst e) = Some ASSIGNED \<and> map_of (agents ?st) (snd e) \<noteq> None)
       (spawned ?st)"
    using i kn by (auto simp: engine_inv_def list_all_iff ts)
  have c5: "list_all (\<lambda>e. task_status ?st (fst e) = Some IN_PROGRESS \<and> map_of (agents ?st) (snd e) \<noteq> None)
       (awaiting ?st)"
    using i kn by (auto simp: engine_inv_def list_all_iff ts)
  have c6: "list_all (\<lambda>s. s_type s = REQUIREMENT \<or> s_type s = DECISION_NEEDED) (signals ?st)"
    using i by (simp add: engine_inv_def)
  from c1 c2 c3 c4 c5 c6 show "engine_inv ?st" unfolding engine_inv_def by blast
qed

lemma tasks_dom_assign_task [simp]:
  "map_of (tasks (assign_task st tid)) k = None \<longleftrightarrow> map_of (tasks st) k = None"
  by (rule assign_task_cases) auto

text \<open>What the decomposer hands over: pending tasks under the ids drawn, at most six.\<close>

lemma decompose_requirement_ids:
  "map t_id (decompose_requirement requirement uuid4 now) =
     map uuid4 [0..<length (decompose_requirement requirement uuid4 now)] \<and>
   length (decompose_requirement requirement uuid4 now) \<le> 6 \<and>
   list_all (\<lambda>t. t_status t = PENDING) (decompose_requirement requirement uuid4 now)"
proof -
  have u: "[0..<6] = [0, 1, 2, 3, 4, 5]" "[0..<4] = [0, 1, 2, 3]" by (simp_all add: upt_rec)
  show ?thesis
    by (cases "needs_deep_reasoning requirement")
       (simp_all add: decompose_requirement_def Task_def Let_def u)
qed

lemma inv_submit_loop:
  assumes "engine_inv s" and "distinct (map t_id ts)"
    and "list_all (\<lambda>t. map_of (tasks s) (t_id t) = None \<and> t_status t = PENDING) ts"
  shows "engine_inv (foldl (\<lambda>s task. assign_task (s\<lparr>tasks := dict_set (tasks s) (t_id task) task\<rparr>)
                                   (t_id task)) s ts)"
  using assms
proof (induction ts arbitrary: s)
  case Nil
  then show ?case by simp
next
  case (Cons t ts)
  let ?s1 = "s\<lparr>tasks := dict_set (tasks s) (t_id t) t\<rparr>"
  let ?s2 = "assign_task ?s1 (t_id t)"
  from Cons.prems have i1: "engine_inv ?s1" by (intro inv_insert) auto
  have "task_status ?s1 (t_id t) = Some PENDING"
    using Cons.prems by (simp add: task_status_def map_of_dict_set)
  with i1 have i2: "engine_inv ?s2" by (rule inv_assign)
  have "map_of (tasks ?s2) (t_id u) = None \<and> t_status u = PENDING" if "u \<in> set ts" for u
  proof -
    from Cons.prems have "t_id t \<notin> t_id ` set ts" by simp
    with that have "t_id u \<noteq> t_id t" by (metis imageI)
    moreover from that Cons.prems have "map_of (tasks s) (t_id u) = None \<and> t_status u = PENDING"
      by (simp add: list_all_iff)
    ultimately show ?thesis by (simp add: map_of_dict_set)
  qed
  then have "list_all (\<lambda>u. map_of (tasks ?s2) (t_id u) = None \<and> t_status u = PENDING) ts"
    by (simp add: list_all_iff)
  with i2 Cons.prems have "engine_inv (foldl (\<lambda>s task. assign_task (s\<lparr>tasks := dict_set (tasks s) (t_id task) task\<rparr>)
                                   (t_id task)) ?s2 ts)"
    by (intro Cons.IH) auto
  then show ?case by simp
qed

lemma inv_process_requirement:
  assumes i: "engine_inv st" and f: "fresh_ids st uuid4"
  shows "engine_inv (snd (process_requirement st requirement priority req_id uuid4 now))"
proof -
  let ?ts = "decompose_requirement requirement uuid4 now"
  let ?st1 = "st\<lparr>signals := signals st @
                   [Signal req_id REQUIREMENT (Some ''user'')
                      [(''content'', PStr requirement), (''priority'', PInt priority)] now]\<rparr>"
  note d = decompose_requirement_ids [of requirement uuid4 now]
  have i1: "engine_inv ?st1"
    using i by (simp add: engine_inv_def dependencies_completed_def task_status_def Signal_def)
  from d have sub: "set [0..<length ?ts] \<subseteq> set [0..<6]" by auto
  have "distinct (map uuid4 [0..<length ?ts])"
  proof -
    from f have "inj_on uuid4 (set [0..<6])" by (simp add: fresh_ids_def distinct_map)
    with sub have "inj_on uuid4 (set [0..<length ?ts])" by (rule inj_on_subset[rotated])
    then show ?thesis by (simp add: distinct_map)
  qed
  with d have dist: "distinct (map t_id ?ts)" by simp
  have fr: "map_of (tasks st) (t_id t) = None" if "t \<in> set ?ts" for t
  proof -
    from that have "t_id t \<in> set (map t_id ?ts)" by simp
    with d have "t_id t \<in> uuid4 ` set [0..<length ?ts]" by simp
    with sub have "t_id t \<in> uuid4 ` set [0..<6]" by blast
    then obtain x where x: "x \<in> set [0..<6]" "t_id t = uuid4 x" by blast
    from f have "\<forall>k\<in>set [0..<6]. uuid4 k \<notin> set (map fst (tasks st))"
      by (simp add: fresh_ids_def list_all_iff)
    with x have "t_id t \<notin> fst ` set (tasks st)" by auto
    then show ?thesis by (simp add: map_of_eq_None_iff)
  qed
  have "list_all (\<lambda>t. map_of (tasks ?st1) (t_id t) = None \<and> t_status t = PENDING) ?ts"
    using d fr by (auto simp: list_all_iff)
  with i1 dist have "engine_inv (foldl (\<lambda>s task. assign_task (s\<lparr>tasks := dict_set (tasks s) (t_id task) task\<rparr>)
                                   (t_id task)) ?st1 ?ts)"
    by (rule inv_submit_loop)
  then show ?thesis by (simp add: process_requirement_def Let_def)
qed

lemma distinct_map_remove1:
  "distinct (map f xs) \<Longrightarrow> x \<in> set xs \<Longrightarrow>
     distinct (map f (remove1 x xs)) \<and> f x \<notin> f ` set (remove1 x xs)"
  by (induction xs) (auto simp: image_iff)

lemma s_type_decision_signals:
  "list_all (\<lambda>s. s_type s = DECISION_NEEDED) (decision_signals agent task outcome sig_id now)"
  by (simp add: decision_signals_def decision_signal_def Signal_def split: option.splits)

lemma inv_start:
  assumes i: "engine_inv st" and x: "(tid, aid) \<in> set (spawned st)"
  shows "engine_inv (execute_task_start
                   (st\<lparr>spawned := remove1 (tid, aid) (spawned st),
                       awaiting := awaiting st @ [(tid, aid)]\<rparr>) tid aid now)"
proof -
  from i x have s: "task_status st tid = Some ASSIGNED" and ag: "map_of (agents st) aid \<noteq> None"
    by (auto simp: engine_inv_def list_all_iff)
  from s obtain task where t: "map_of (tasks st) tid = Some task" and ta: "t_status task = ASSIGNED"
    by (auto simp: task_status_def)
  from ag obtain agent where a: "map_of (agents st) aid = Some agent" by auto
  let ?f = "\<lambda>t. t\<lparr>t_status := IN_PROGRESS\<rparr>"
  let ?st = "st\<lparr>spawned := remove1 (tid, aid) (spawned st),
                awaiting := awaiting st @ [(tid, aid)],
                tasks := update_entry tid ?f (tasks st)\<rparr>"
  have e: "execute_task_start
                   (st\<lparr>spawned := remove1 (tid, aid) (spawned st),
                       awaiting := awaiting st @ [(tid, aid)]\<rparr>) tid aid now =
           log_event ?st now ''task_started''
            [(''task_id'', PStr (t_id task)), (''agent_id'', PStr (a_id agent)),
             (''description'', PStr (t_description task))]"
    using t a by (simp add: execute_task_start_def)
  have ts: "task_status ?st k = (if k = tid then Some IN_PROGRESS else task_status st k)" for k
    using t by (simp add: task_status_def map_of_update_entry)
  have comp: "task_status ?st k = Some COMPLETED" if "task_status st k = Some COMPLETED" for k
    using that s by (auto simp: ts)
  have dc: "dependencies_completed ?st deps" if "dependencies_completed st deps" for deps
    using that comp by (auto simp: dependencies_completed_iff)
  have c1: "\<forall>k u. map_of (tasks ?st) k = Some u \<longrightarrow> t_status u \<noteq> PENDING \<longrightarrow>
        dependencies_completed ?st (t_dependencies u)"
  proof (intro allI impI)
    fix k u
    assume m: "map_of (tasks ?st) k = Some u" and np: "t_status u \<noteq> PENDING"
    show "dependencies_completed ?st (t_dependencies u)"
    proof (cases "k = tid")
      case True
      with m t have "t_dependencies u = t_dependencies task"
        by (auto simp: map_of_update_entry)
      moreover from i t ta have "dependencies_completed st (t_dependencies task)"
        by (auto simp: engine_inv_def)
      ultimately show ?thesis by (simp add: dc)
    next
      case False
      with m have "map_of (tasks st) k = Some u" by (simp add: map_of_update_entry)
      with i np have "dependencies_completed st (t_dependencies u)"
        by (auto simp: engine_inv_def)
      then show ?thesis by (rule dc)
    qed
  qed
  have c2: "list_all (\<lambda>kv. t_status (snd kv) \<noteq> BLOCKED \<and> t_status (snd kv) \<noteq> REVIEW) (tasks ?st)"
    using i by (auto simp: engine_inv_def intro!: list_all_update_entry)
  from i have dsp: "distinct (map fst (spawned st))" and daw: "distinct (map fst (awaiting st))"
    and dj: "fst ` set (spawned st) \<inter> fst ` set (awaiting st) = {}"
    by (auto simp: engine_inv_def)
  note r = distinct_map_remove1 [OF dsp x]
  from x dj have na: "tid \<notin> fst ` set (awaiting st)" by force
  have sub: "set (remove1 (tid, aid) (spawned st)) \<subseteq> set (spawned st)"
    by (rule set_remove1_subset)
  have c3: "distinct (map fst (spawned ?st @ awaiting ?st))"
    using r daw dj na sub by auto
  have c4: "list_all (\<lambda>e. task_status ?st (fst e) = Some ASSIGNED \<and> map_of (agents ?st) (snd e) \<noteq> None)
       (spawned ?st)"
    unfolding list_all_iff
  proof
    fix e assume e: "e \<in> set (spawned ?st)"
    with r have "fst e \<noteq> tid" by force
    moreover from e sub i have "task_status st (fst e) = Some ASSIGNED \<and> map_of (agents st) (snd e) \<noteq> None"
      by (auto simp: engine_inv_def list_all_iff)
    ultimately show "task_status ?st (fst e) = Some ASSIGNED \<and> map_of (agents ?st) (snd e) \<noteq> None"
      by (simp add: ts)
  qed
  have c5: "list_all (\<lambda>e. task_status ?st (fst e) = Some IN_PROGRESS \<and> map_of (agents ?st) (snd e) \<noteq> None)
       (awaiting ?st)"
    using i ag by (auto simp: engine_inv_def list_all_iff ts)
  have c6: "list_all (\<lambda>s. s_type s = REQUIREMENT \<or> s_type s = DECISION_NEEDED) (signals ?st)"
    using i by (simp add: engine_inv_def)
  from c1 c2 c3 c4 c5 c6 have "engine_inv ?st" unfolding engine_inv_def by blast
  with e show ?thesis by simp
qed

lemma inv_finish:
  assumes i: "engine_inv st" and x: "(tid, aid) \<in> set (awaiting st)"
  shows "\<exists>st'. execute_task_finish (st\<lparr>awaiting := remove1 (tid, aid) (awaiting st)\<rparr>)
                 tid aid outcome sig_id now = Inr st' \<and> engine_inv st'"
proof -
  from i x have s: "task_status st tid = Some IN_PROGRESS" and ag: "map_of (agents st) aid \<noteq> None"
    by (auto simp: engine_inv_def list_all_iff)
  from s obtain task where t: "map_of (tasks st) tid = Some task" and ta: "t_status task = IN_PROGRESS"
    by (auto simp: task_status_def)
  from ag obtain agent where a: "map_of (agents st) aid = Some agent" by auto
  let ?f = "\<lambda>t. t\<lparr>t_output := final_output agent task outcome, t_status := COMPLETED,
                          t_completed_at := Some now\<rparr>"
  let ?g = "\<lambda>a. a\<lparr>a_status := ''ready'', a_current_task := None\<rparr>"
  let ?sa = "st\<lparr>awaiting := remove1 (tid, aid) (awaiting st)\<rparr>"
  let ?st = "st\<lparr>awaiting := remove1 (tid, aid) (awaiting st),
                tasks := update_entry tid ?f (tasks st),
                agents := update_entry aid ?g (agents st),
                signals := signals st @ decision_signals agent task outcome sig_id now\<rparr>"
  have e: "execute_task_finish ?sa tid aid outcome sig_id now =
     Inr (log_event (check_pending_tasks ?st) now ''task_completed''
          [(''task_id'', PStr (t_id task)), (''agent_id'', PStr (a_id agent)),
           (''duration'', PInt (int now - int (t_created_at task)))])"
    using execute_task_finish_Inr [of ?sa tid task aid agent outcome sig_id now] t a by simp
  have ts: "task_status ?st k = (if k = tid then Some COMPLETED else task_status st k)" for k
    using t by (simp add: task_status_def map_of_update_entry)
  have comp: "task_status ?st k = Some COMPLETED" if "task_status st k = Some COMPLETED" for k
    using that ts [of k] by (simp split: if_splits)
  have dc: "dependencies_completed ?st deps" if "dependencies_completed st deps" for deps
    using that comp by (auto simp: dependencies_completed_iff)
  have c1: "\<forall>k u. map_of (tasks ?st) k = Some u \<longrightarrow> t_status u \<noteq> PENDING \<longrightarrow>
        dependencies_completed ?st (t_dependencies u)"
  proof (intro allI impI)
    fix k u
    assume m: "map_of (tasks ?st) k = Some u" and np: "t_status u \<noteq> PENDING"
    show "dependencies_completed ?st (t_dependencies u)"
    proof (cases "k = tid")
      case True
      with m t have "t_dependencies u = t_dependencies task"
        by (auto simp: map_of_update_entry)
      moreover from i t ta have "dependencies_completed st (t_dependencies task)"
        by (auto simp: engine_inv_def)
      ultimately show ?thesis by (simp add: dc)
    next
      case False
      with m have "map_of (tasks st) k = Some u" by (simp add: map_of_update_entry)
      with i np have "dependencies_completed st (t_dependencies u)"
        by (auto simp: engine_inv_def)
      then show ?thesis by (rule dc)
    qed
  qed
  have c2: "list_all (\<lambda>kv. t_status (snd kv) \<noteq> BLOCKED \<and> t_status (snd kv) \<noteq> REVIEW) (tasks ?st)"
    using i by (auto simp: engine_inv_def intro!: list_all_update_entry)
  from i have dsp: "distinct (map fst (spawned st))" and daw: "distinct (map fst (awaiting st))"
    and dj: "fst ` set (spawned st) \<inter> fst ` set (awaiting st) = {}"
    by (auto simp: engine_inv_def)
  note r = distinct_map_remove1 [OF daw x]
  from x dj have na: "tid \<notin> fst ` set (spawned st)" by force
  have sub: "set (remove1 (tid, aid) (awaiting st)) \<subseteq> set (awaiting st)"
    by (rule set_remove1_subset)
  have c3: "distinct (map fst (spawned ?st @ awaiting ?st))"
    using r dsp dj sub by auto
  have c4: "list_all (\<lambda>e. task_status ?st (fst e) = Some ASSIGNED \<and> map_of (agents ?st) (snd e) \<noteq> None)
       (spawned ?st)"
    unfolding list_all_iff
  proof
    fix e assume e: "e \<in> set (spawned ?st)"
    with na have "fst e \<noteq> tid" by force
    moreover from e i have "task_status st (fst e) = Some ASSIGNED \<and> map_of (agents st) (snd e) \<noteq> None"
      by (auto simp: engine_inv_def list_all_iff)
    ultimately show "task_status ?st (fst e) = Some ASSIGNED \<and> map_of (agents ?st) (snd e) \<noteq> None"
      using ts [of "fst e"] by simp
  qed
  have c5: "list_all (\<lambda>e. task_status ?st (fst e) = Some IN_PROGRESS \<and> map_of (agents ?st) (snd e) \<noteq> None)
       (awaiting ?st)"
    unfolding list_all_iff
  proof
    fix e assume e: "e \<in> set (awaiting ?st)"
    with r have "fst e \<noteq> tid" by force
    moreover from e sub i have "task_status st (fst e) = Some IN_PROGRESS \<and> map_of (agents st) (snd e) \<noteq> None"
      by (auto simp: engine_inv_def list_all_iff)
    ultimately show "task_status ?st (fst e) = Some IN_PROGRESS \<and> map_of (agents ?st) (snd e) \<noteq> None"
      using ts [of "fst e"] by simp
  qed
  have c6: "list_all (\<lambda>s. s_type s = REQUIREMENT \<or> s_type s = DECISION_NEEDED) (signals ?st)"
    using i s_type_decision_signals [of agent task outcome sig_id now]
    by (auto simp: engine_inv_def list_all_iff)
  from c1 c2 c3 c4 c5 c6 have "engine_inv ?st" unfolding engine_inv_def by blast
  then have "engine_inv (check_pending_tasks ?st)" by (rule inv_check_pending_tasks)
  with e show ?thesis by simp
qed

lemma inv_fire: "engine_inv st \<Longrightarrow> fire st e = Some st' \<Longrightarrow> engine_inv st'"
proof (cases e)
  case (Submit requirement priority req_id uuid4 now)
  assume "engine_inv st" "fire st e = Some st'"
  with Submit show ?thesis by (auto split: if_splits intro: inv_process_requirement)
next
  case (Start tid aid now)
  assume "engine_inv st" "fire st e = Some st'"
  with Start show ?thesis by (auto split: if_splits intro: inv_start)
next
  case (Finish tid aid outcome sig_id now)
  assume i: "engine_inv st" and f: "fire st e = Some st'"
  show ?thesis
  proof (cases "(tid, aid) \<in> set (awaiting st)")
    case True
    from inv_finish [OF i True, of outcome sig_id now] f Finish True show ?thesis by auto
  next
    case False
    with f Finish show ?thesis by simp
  qed
next
  case (Decide signal_id decision now)
  assume "engine_inv st" "fire st e = Some st'"
  with Decide show ?thesis by (auto intro: inv_make_decision)
qed

lemma inv_run: "engine_inv st \<Longrightarrow> run st es = Some st' \<Longrightarrow> engine_inv st'"
  by (induction es arbitrary: st) (auto split: option.splits dest: inv_fire)

lemma inv_reachable: "run (init pid) es = Some st \<Longrightarrow> engine_inv st"
  using inv_init inv_run by blast

lemma demo_run_ok: "run (init ''p'') demo_events = Some demo_started"
proof -
  have "run (init ''p'') demo_events \<noteq> None" by code_simp
  then show ?thesis by (auto simp: demo_started_def)
qed

text \<open>
  Claim C2. In every state that a run of the engine reaches after a step, a task that is
  assigned or in progress has a dependency list all of whose ids are in the task map with
  the status completed, and \<open>_dependencies_met\<close> holds of it. So no step moves a task out
  of the pending state while a dependency is missing from the map or not completed.
\<close>

theorem assigned_only_with_completed_dependencies:
  assumes "run (init pid) es = Some st" and "fire st e = Some st'"
    and "map_of (tasks st') tid = Some t'"
    and "t_status t' = ASSIGNED \<or> t_status t' = IN_PROGRESS"
  shows "dependencies_completed st' (t_dependencies t') \<and> dependencies_met st' t' \<and>
         list_all (\<lambda>dep_id. map_of (tasks st') dep_id \<noteq> None) (t_dependencies t')"
proof -
  from assms(1) have "engine_inv st" by (rule inv_reachable)
  then have "engine_inv st'" using assms(2) by (rule inv_fire)
  with assms(3,4) have d: "dependencies_completed st' (t_dependencies t')"
    by (auto simp: engine_inv_def)
  then have "list_all (\<lambda>dep_id. map_of (tasks st') dep_id \<noteq> None) (t_dependencies t')"
    by (auto simp: dependencies_completed_def list_all_iff task_status_def)
  with d show ?thesis by (simp add: dependencies_met_iff)
qed

text \<open>
  In the run of \<open>demo_events\<close> the completion of the analysis task \<open>t0\<close> is the step that
  assigns the planning task \<open>t1\<close>, which depends on \<open>t0\<close>.
\<close>

theorem assigned_only_with_completed_dependencies_witness:
  "run (init ''p'') demo_events = Some demo_started \<and>
   task_status demo_started ''t1'' = Some PENDING \<and>
   fire demo_started (Finish ''t0'' ''claude_analyst'' Raises ''s1'' 2) \<noteq> None \<and>
   task_status (the (fire demo_started (Finish ''t0'' ''claude_analyst'' Raises ''s1'' 2))) ''t1''
     = Some ASSIGNED \<and>
   map_option t_dependencies
     (map_of (tasks (the (fire demo_started (Finish ''t0'' ''claude_analyst'' Raises ''s1'' 2)))) ''t1'')
     = Some [''t0''] \<and>
   dependencies_completed
     (the (fire demo_started (Finish ''t0'' ''claude_analyst'' Raises ''s1'' 2))) [''t0'']"
proof -
  let ?e = "Finish ''t0'' ''claude_analyst'' Raises ''s1'' 2"
  let ?st = "the (fire demo_started ?e)"
  have f: "fire demo_started ?e \<noteq> None" unfolding demo_started_def demo_events_def by code_simp
  then have f': "fire demo_started ?e = Some ?st" by auto
  have p: "task_status demo_started ''t1'' = Some PENDING"
    unfolding demo_started_def demo_events_def by code_simp
  have a: "task_status ?st ''t1'' = Some ASSIGNED"
    unfolding demo_started_def demo_events_def by code_simp
  have d: "map_option t_dependencies (map_of (tasks ?st) ''t1'') = Some [''t0'']"
    unfolding demo_started_def demo_events_def by code_simp
  from a obtain t' where t: "map_of (tasks ?st) ''t1'' = Some t'" and s: "t_status t' = ASSIGNED"
    by (auto simp: task_status_def)
  from t d have dep: "t_dependencies t' = [''t0'']" by simp
  from assigned_only_with_completed_dependencies [OF demo_run_ok f' t] s dep
  have "dependencies_completed ?st [''t0'']" by simp
  with demo_run_ok f p a d show ?thesis by simp
qed

text \<open>
  Claim C7. When no recorded signal has the given id, \<open>make_decision\<close> returns \<open>False\<close>
  and the engine is left exactly as it was: signal log, project context with its decisions,
  task map and worker roster, and every other field.
\<close>

theorem make_decision_unknown_signal:
  assumes "list_all (\<lambda>s. s_id s \<noteq> signal_id) (signals st)"
  shows "make_decision st signal_id decision now = (False, st)"
proof -
  from assms have "find (\<lambda>s. s_id s = signal_id) (signals st) = None"
    by (simp add: find_None_iff list_all_iff)
  then show ?thesis by (simp add: make_decision_def)
qed

theorem make_decision_unknown_signal_witness:
  "list_all (\<lambda>s. s_id s \<noteq> ''r2'') (signals demo_started) \<and>
   signals demo_started \<noteq> [] \<and>
   make_decision demo_started ''r2'' ''use postgres'' 3 = (False, demo_started)"
proof -
  have a: "list_all (\<lambda>s. s_id s \<noteq> ''r2'') (signals demo_started)"
    unfolding demo_started_def demo_events_def by code_simp
  have b: "signals demo_started \<noteq> []"
    unfolding demo_started_def demo_events_def by code_simp
  from make_decision_unknown_signal [OF a] a b show ?thesis by simp
qed

lemma tasks_assign_task_other:
  "j \<noteq> k \<Longrightarrow> map_of (tasks (assign_task s j)) k = map_of (tasks s) k"
  by (rule assign_task_cases) (auto simp: map_of_update_entry)

lemma check_pending_tasks_frame:
  assumes "task_status s k \<noteq> Some PENDING"
  shows "map_of (tasks (check_pending_tasks s)) k = map_of (tasks s) k"
  unfolding check_pending_tasks_def
proof (rule foldl_preserves [where P = "\<lambda>s'. map_of (tasks s') k = map_of (tasks s) k"])
  show "map_of (tasks s) k = map_of (tasks s) k" by simp
next
  fix s' :: orchestrator and j
  assume e: "map_of (tasks s') k = map_of (tasks s) k"
  show "map_of (tasks (case map_of (tasks s') j of None \<Rightarrow> s'
          | Some task \<Rightarrow> if t_status task = PENDING then assign_task s' j else s')) k
        = map_of (tasks s) k"
  proof (cases "j = k")
    case True
    with e assms show ?thesis by (auto simp: task_status_def split: option.splits)
  next
    case False
    with e show ?thesis by (auto simp: tasks_assign_task_other split: option.splits)
  qed
qed

lemma execute_task_finish_signals:
  assumes "execute_task_finish s tid aid outcome sig_id now = Inr s'"
  shows "\<exists>new. signals s' = signals s @ new \<and> list_all (\<lambda>x. s_type x = DECISION_NEEDED) new"
proof (cases "map_of (tasks s) tid")
  case None
  with assms have "s' = s" by (simp add: execute_task_finish_def)
  then show ?thesis by simp
next
  case (Some task)
  note t = this
  show ?thesis
  proof (cases "map_of (agents s) aid")
    case None
    with t assms have "s' = s" by (simp add: execute_task_finish_def)
    then show ?thesis by simp
  next
    case (Some agent)
    from execute_task_finish_Inr [OF t Some, of outcome sig_id now] assms
    have "signals s' = signals s @ decision_signals agent task outcome sig_id now" by auto
    with s_type_decision_signals [of agent task outcome sig_id now] show ?thesis by blast
  qed
qed

lemma fire_signals:
  assumes "fire st e = Some st'"
  shows "\<exists>new. signals st' = signals st @ new \<and>
     (list_all (\<lambda>x. s_type x = DECISION_NEEDED) new \<and> (new = [] \<or> (\<exists>tid aid outcome sig_id now. e = Finish tid aid outcome sig_id now))
      \<or> list_all (\<lambda>x. s_type x = REQUIREMENT) new)"
proof (cases e)
  case (Submit requirement priority req_id uuid4 now)
  with assms have "st' = snd (process_requirement st requirement priority req_id uuid4 now)"
    by (auto split: if_splits)
  then show ?thesis by (simp add: signals_process_requirement Signal_def)
next
  case (Start tid aid now)
  with assms have "signals st' = signals st" by (auto split: if_splits)
  then show ?thesis by simp
next
  case (Finish tid aid outcome sig_id now)
  with assms obtain s where "execute_task_finish s tid aid outcome sig_id now = Inr st'"
    and "signals s = signals st"
    by (auto split: if_splits sum.splits)
  with execute_task_finish_signals [of s tid aid outcome sig_id now st'] Finish
  show ?thesis by auto
next
  case (Decide signal_id decision now)
  with assms have "signals st' = signals st" by auto
  then show ?thesis by simp
qed

lemma run_signals:
  "run st es = Some st' \<Longrightarrow> \<exists>new. signals st' = signals st @ new"
proof (induction es arbitrary: st)
  case Nil
  then show ?case by simp
next
  case (Cons e es)
  then obtain s where f: "fire st e = Some s" and r: "run s es = Some st'"
    by (auto split: option.splits)
  from fire_signals [OF f] obtain n1 where "signals s = signals st @ n1" by blast
  moreover from Cons.IH [OF r] obtain n2 where "signals st' = signals s @ n2" by blast
  ultimately have "signals st' = signals st @ (n1 @ n2)" by simp
  then show ?case by blast
qed

text \<open>
  Claim C9. The pending-decisions count of the status aggregator is the number of
  decision signals in the signal log. \<open>make_decision\<close> leaves the log as it is, whether it
  succeeds or not, and every run of the engine only appends to the log, so the count never
  decreases over a run: it is the number of decision signals ever appended.
\<close>

theorem pending_decisions_never_decrease:
  "ps_pending_decisions (get_project_status st) = length (signals_of_type DECISION_NEEDED st) \<and>
   signals (snd (make_decision st signal_id decision now)) = signals st \<and>
   (run st es = Some st' \<longrightarrow>
      (\<exists>new. signals st' = signals st @ new \<and>
             ps_pending_decisions (get_project_status st') =
               ps_pending_decisions (get_project_status st)
                 + length (filter (\<lambda>s. s_type s = DECISION_NEEDED) new)) \<and>
      ps_pending_decisions (get_project_status st)
        \<le> ps_pending_decisions (get_project_status st'))"
proof -
  have a: "ps_pending_decisions (get_project_status s) = length (signals_of_type DECISION_NEEDED s)"
    for s by (simp add: get_project_status_def signals_of_type_def Let_def)
  have b: "(\<exists>new. signals st' = signals st @ new \<and>
             ps_pending_decisions (get_project_status st') =
               ps_pending_decisions (get_project_status st)
                 + length (filter (\<lambda>s. s_type s = DECISION_NEEDED) new)) \<and>
      ps_pending_decisions (get_project_status st)
        \<le> ps_pending_decisions (get_project_status st')" if "run st es = Some st'"
  proof -
    from run_signals [OF that] obtain new where n: "signals st' = signals st @ new" by blast
    then have "ps_pending_decisions (get_project_status st') =
               ps_pending_decisions (get_project_status st)
                 + length (filter (\<lambda>s. s_type s = DECISION_NEEDED) new)"
      by (simp add: a signals_of_type_def)
    with n show ?thesis by auto
  qed
  from a b show ?thesis by simp
qed

text \<open>
  The run of \<open>demo_events\<close> goes on: the analysis task completes with the simulated output,
  which asks for decisions, and the decision is recorded. The count stays 1.
\<close>

theorem pending_decisions_never_decrease_witness:
  "run demo_started [Finish ''t0'' ''claude_analyst'' Raises ''s1'' 2] \<noteq> None \<and>
   ps_pending_decisions (get_project_status demo_started) = 0 \<and>
   ps_pending_decisions (get_project_status
     (the (run demo_started [Finish ''t0'' ''claude_analyst'' Raises ''s1'' 2]))) = 1 \<and>
   fst (make_decision (the (run demo_started [Finish ''t0'' ''claude_analyst'' Raises ''s1'' 2]))
          ''s1'' ''postgres'' 3) \<and>
   ps_pending_decisions (get_project_status
     (the (run demo_started
             [Finish ''t0'' ''claude_analyst'' Raises ''s1'' 2, Decide ''s1'' ''postgres'' 3]))) = 1"
proof -
  let ?es = "[Finish ''t0'' ''claude_analyst'' Raises ''s1'' 2]"
  let ?st = "the (run demo_started ?es)"
  have r: "run demo_started ?es \<noteq> None" unfolding demo_started_def demo_events_def by code_simp
  then have r': "run demo_started ?es = Some ?st" by auto
  have z: "ps_pending_decisions (get_project_status demo_started) = 0"
    unfolding demo_started_def demo_events_def by code_simp
  have o: "ps_pending_decisions (get_project_status ?st) = 1"
    unfolding demo_started_def demo_events_def by code_simp
  have m: "fst (make_decision ?st ''s1'' ''postgres'' 3)"
    unfolding demo_started_def demo_events_def by code_simp
  have o2: "ps_pending_decisions (get_project_status
     (the (run demo_started
             [Finish ''t0'' ''claude_analyst'' Raises ''s1'' 2, Decide ''s1'' ''postgres'' 3]))) = 1"
    unfolding demo_started_def demo_events_def by code_simp
  from pending_decisions_never_decrease [of demo_started "''s1''" "''postgres''" 3 ?es ?st] r'
  have "ps_pending_decisions (get_project_status demo_started)
        \<le> ps_pending_decisions (get_project_status ?st)" by blast
  with r z o m o2 show ?thesis by simp
qed

lemma join_contains: "x \<in> set xs \<Longrightarrow> \<exists>pre post. join sep xs = pre @ x @ post"
proof (induction sep xs rule: join.induct)
  case (1 sep)
  then show ?case by simp
next
  case (2 sep y)
  then have "join sep [y] = [] @ x @ []" by simp
  then show ?case by blast
next
  case (3 sep y z zs)
  show ?case
  proof (cases "x = y")
    case True
    then have "join sep (y # z # zs) = [] @ x @ (sep @ join sep (z # zs))" by simp
    then show ?thesis by blast
  next
    case False
    with 3 obtain pre post where "join sep (z # zs) = pre @ x @ post" by auto
    then have "join sep (y # z # zs) = (y @ sep @ pre) @ x @ post" by simp
    then show ?thesis by blast
  qed
qed

lemma py_repr_dict_key:
  assumes "(k, v) \<in> set d"
  shows "\<exists>pre post. py_repr (PDict d) = pre @ repr_str k @ post"
proof -
  let ?item = "\<lambda>kv. repr_str (fst kv) @ '': '' @ py_repr (snd kv)"
  from assms have "?item (k, v) \<in> set (map ?item d)" by force
  from join_contains [OF this, of "'', ''"] obtain pre post
    where "join '', '' (map ?item d) = pre @ ?item (k, v) @ post" by blast
  then have "py_repr (PDict d) = (''{'' @ pre) @ repr_str k @ ('': '' @ py_repr v @ post @ ''}'')"
    by simp
  then show ?thesis by blast
qed

lemma repr_str_decisions_needed:
  "repr_str ''decisions_needed'' = [CHR 0x27] @ ''decisions_needed'' @ [CHR 0x27]"
  by code_simp

lemma declared_field_is_mentioned:
  assumes "map_of out ''decisions_needed'' = Some v"
  shows "str_contains ''decisions_needed'' (str_output (Some out))"
proof -
  from assms have "(''decisions_needed'', v) \<in> set out" by (rule map_of_SomeD)
  from py_repr_dict_key [OF this] obtain pre post
    where "py_repr (PDict out) = pre @ repr_str ''decisions_needed'' @ post" by blast
  then have "py_repr (PDict out) = (pre @ [CHR 0x27]) @ ''decisions_needed'' @ ([CHR 0x27] @ post)"
    by (simp only: repr_str_decisions_needed append_assoc)
  then show ?thesis unfolding str_contains_iff str_output_def option.case by blast
qed


lemma tasks_log_event [simp]: "tasks (log_event st now ev data) = tasks st"
  by (simp add: log_event_def)

lemma finish_step:
  assumes i: "engine_inv st" and x: "(tid, aid) \<in> set (awaiting st)"
  obtains task agent st' where
    "map_of (tasks st) tid = Some task" and "map_of (agents st) aid = Some agent"
    and "t_status task = IN_PROGRESS"
    and "fire st (Finish tid aid outcome sig_id now) = Some st'"
    and "map_of (tasks st') tid =
           Some (task\<lparr>t_output := final_output agent task outcome, t_status := COMPLETED,
                      t_completed_at := Some now\<rparr>)"
    and "signals st' = signals st @ decision_signals agent task outcome sig_id now"
    and "engine_inv st'"
proof -
  from i x have s: "task_status st tid = Some IN_PROGRESS" and ag: "map_of (agents st) aid \<noteq> None"
    by (auto simp: engine_inv_def list_all_iff)
  from s obtain task where t: "map_of (tasks st) tid = Some task" and ta: "t_status task = IN_PROGRESS"
    by (auto simp: task_status_def)
  from ag obtain agent where a: "map_of (agents st) aid = Some agent" by auto
  let ?f = "\<lambda>t. t\<lparr>t_output := final_output agent task outcome, t_status := COMPLETED,
                          t_completed_at := Some now\<rparr>"
  let ?g = "\<lambda>a. a\<lparr>a_status := ''ready'', a_current_task := None\<rparr>"
  let ?sa = "st\<lparr>awaiting := remove1 (tid, aid) (awaiting st)\<rparr>"
  let ?sb = "st\<lparr>awaiting := remove1 (tid, aid) (awaiting st),
                tasks := update_entry tid ?f (tasks st),
                agents := update_entry aid ?g (agents st),
                signals := signals st @ decision_signals agent task outcome sig_id now\<rparr>"
  let ?sc = "log_event (check_pending_tasks ?sb) now ''task_completed''
          [(''task_id'', PStr (t_id task)), (''agent_id'', PStr (a_id agent)),
           (''duration'', PInt (int now - int (t_created_at task)))]"
  have e: "execute_task_finish ?sa tid aid outcome sig_id now = Inr ?sc"
    using execute_task_finish_Inr [of ?sa tid task aid agent outcome sig_id now] t a by simp
  with x have f: "fire st (Finish tid aid outcome sig_id now) = Some ?sc" by simp
  have m: "map_of (tasks ?sb) tid = Some (?f task)"
    using t by (simp add: map_of_update_entry)
  then have "task_status ?sb tid \<noteq> Some PENDING" by (simp add: task_status_def)
  then have "map_of (tasks (check_pending_tasks ?sb)) tid = map_of (tasks ?sb) tid"
    by (rule check_pending_tasks_frame)
  with m have m': "map_of (tasks ?sc) tid = Some (?f task)" by simp
  have sg: "signals ?sc = signals st @ decision_signals agent task outcome sig_id now" by simp
  from i f have "engine_inv ?sc" by (rule inv_fire)
  with t a ta f m' sg show ?thesis by (rule that)
qed

text \<open>
  Claim C5, as the code has it. When an execution completes, exactly one decision signal is
  appended if the text \<open>str(task.output)\<close> contains \<open>decisions_needed\<close>, and none
  otherwise; the signal names the task's id, carries the value of the output's top-level
  \<open>decisions_needed\<close> field (the empty list when there is no such field) and the whole
  output. An output that declares the field always contains the text. No other step of the
  engine changes the decision signals in the log.
\<close>

theorem decision_signal_iff_output_text_mentions:
  "(run (init pid) es = Some st \<and> (tid, aid) \<in> set (awaiting st) \<longrightarrow>
      (\<exists>s task. fire st (Finish tid aid outcome sig_id now) = Some s \<and>
         map_of (tasks s) tid = Some task \<and> t_status task = COMPLETED \<and>
         signals s = signals st @
           (case t_output task of
              None \<Rightarrow> []
            | Some out \<Rightarrow>
                if str_contains ''decisions_needed'' (str_output (Some out))
                then [Signal sig_id DECISION_NEEDED (t_assigned_to task)
                        [(''task_id'', PStr (t_id task)),
                         (''decisions'', (case map_of out ''decisions_needed'' of
                                            None \<Rightarrow> PList [] | Some v \<Rightarrow> v)),
                         (''context'', PDict out)] now]
                else []))) \<and>
   (map_of out ''decisions_needed'' = Some v \<longrightarrow>
      str_contains ''decisions_needed'' (str_output (Some out))) \<and>
   \<not> str_contains ''decisions_needed'' (str_output None) \<and>
   (fire st e = Some st' \<and>
    signals_of_type DECISION_NEEDED st' \<noteq> signals_of_type DECISION_NEEDED st \<longrightarrow>
      (\<exists>tid aid outcome sig_id now. e = Finish tid aid outcome sig_id now))"
proof -
  have a: "\<exists>s task. fire st (Finish tid aid outcome sig_id now) = Some s \<and>
         map_of (tasks s) tid = Some task \<and> t_status task = COMPLETED \<and>
         signals s = signals st @
           (case t_output task of
              None \<Rightarrow> []
            | Some out \<Rightarrow>
                if str_contains ''decisions_needed'' (str_output (Some out))
                then [Signal sig_id DECISION_NEEDED (t_assigned_to task)
                        [(''task_id'', PStr (t_id task)),
                         (''decisions'', (case map_of out ''decisions_needed'' of
                                            None \<Rightarrow> PList [] | Some v \<Rightarrow> v)),
                         (''context'', PDict out)] now]
                else [])"
    if r: "run (init pid) es = Some st" and x: "(tid, aid) \<in> set (awaiting st)"
  proof -
    from r have "engine_inv st" by (rule inv_reachable)
    from finish_step [OF this x, of outcome sig_id now] obtain task agent s where
      f: "fire st (Finish tid aid outcome sig_id now) = Some s"
      and m: "map_of (tasks s) tid =
           Some (task\<lparr>t_output := final_output agent task outcome, t_status := COMPLETED,
                      t_completed_at := Some now\<rparr>)"
      and sg: "signals s = signals st @ decision_signals agent task outcome sig_id now"
      by blast
    let ?d = "task\<lparr>t_output := final_output agent task outcome, t_status := COMPLETED,
                      t_completed_at := Some now\<rparr>"
    have "decision_signals agent task outcome sig_id now =
           (case t_output ?d of
              None \<Rightarrow> []
            | Some out \<Rightarrow>
                if str_contains ''decisions_needed'' (str_output (Some out))
                then [Signal sig_id DECISION_NEEDED (t_assigned_to ?d)
                        [(''task_id'', PStr (t_id ?d)),
                         (''decisions'', (case map_of out ''decisions_needed'' of
                                            None \<Rightarrow> PList [] | Some v \<Rightarrow> v)),
                         (''context'', PDict out)] now]
                else [])"
      by (simp add: decision_signals_def decision_signal_def split: option.splits)
    with f m sg show ?thesis by (intro exI [of _ s] exI [of _ ?d]) simp
  qed
  have b: "\<exists>tid aid outcome sig_id now. e = Finish tid aid outcome sig_id now"
    if f: "fire st e = Some st'"
      and n: "signals_of_type DECISION_NEEDED st' \<noteq> signals_of_type DECISION_NEEDED st"
  proof -
    from fire_signals [OF f] obtain new where s: "signals st' = signals st @ new"
      and c: "list_all (\<lambda>x. s_type x = DECISION_NEEDED) new \<and>
               (new = [] \<or> (\<exists>tid aid outcome sig_id now. e = Finish tid aid outcome sig_id now))
              \<or> list_all (\<lambda>x. s_type x = REQUIREMENT) new"
      by blast
    from s n have "filter (\<lambda>x. s_type x = DECISION_NEEDED) new \<noteq> []"
      by (simp add: signals_of_type_def)
    then obtain y where "y \<in> set new" "s_type y = DECISION_NEEDED"
      by (auto simp: filter_empty_conv)
    with c show ?thesis by (auto simp: list_all_iff)
  qed
  from a b declared_field_is_mentioned [of out v] no_decision_in_None show ?thesis by blast
qed

text \<open>
  The same completion with a worker result that only mentions the word: the output
  declares no \<open>decisions_needed\<close> field, and a decision signal with an empty list of
  decisions is appended all the same.
\<close>

theorem decision_signal_without_declared_field:
  "fire demo_started (Finish ''t0'' ''claude_analyst'' (Returns demo_chatty_reply) ''s1'' 2) \<noteq> None \<and>
   task_output (the (fire demo_started
       (Finish ''t0'' ''claude_analyst'' (Returns demo_chatty_reply) ''s1'' 2))) ''t0''
     = Some demo_chatty_reply \<and>
   map_of demo_chatty_reply ''decisions_needed'' = None \<and>
   map s_type (signals (the (fire demo_started
       (Finish ''t0'' ''claude_analyst'' (Returns demo_chatty_reply) ''s1'' 2))))
     = [REQUIREMENT, DECISION_NEEDED] \<and>
   map_of (s_data (last (signals (the (fire demo_started
       (Finish ''t0'' ''claude_analyst'' (Returns demo_chatty_reply) ''s1'' 2)))))) ''task_id''
     = Some (PStr ''t0'') \<and>
   map_of (s_data (last (signals (the (fire demo_started
       (Finish ''t0'' ''claude_analyst'' (Returns demo_chatty_reply) ''s1'' 2)))))) ''decisions''
     = Some (PList [])"
  unfolding demo_started_def demo_events_def demo_chatty_reply_def
  by code_simp


text \<open>
  The completion of \<open>t0\<close> in the run of \<open>demo_events\<close>, with the simulated output that
  declares the field.
\<close>

theorem decision_signal_iff_output_text_mentions_witness:
  "run (init ''p'') demo_events = Some demo_started \<and>
   (''t0'', ''claude_analyst'') \<in> set (awaiting demo_started) \<and>
   fire demo_started (Finish ''t0'' ''claude_analyst'' Raises ''s1'' 2) \<noteq> None \<and>
   map_of (the (task_output (the (fire demo_started
       (Finish ''t0'' ''claude_analyst'' Raises ''s1'' 2))) ''t0'')) ''decisions_needed''
     = Some (PList [PStr ''database_choice'', PStr ''deployment_platform'']) \<and>
   map s_type (signals (the (fire demo_started (Finish ''t0'' ''claude_analyst'' Raises ''s1'' 2))))
     = [REQUIREMENT, DECISION_NEEDED] \<and>
   signals_of_type DECISION_NEEDED
     (the (fire demo_started (Finish ''t0'' ''claude_analyst'' Raises ''s1'' 2)))
     \<noteq> signals_of_type DECISION_NEEDED demo_started"
proof -
  let ?e = "Finish ''t0'' ''claude_analyst'' Raises ''s1'' 2"
  have x: "(''t0'', ''claude_analyst'') \<in> set (awaiting demo_started)"
    unfolding demo_started_def demo_events_def by code_simp
  from decision_signal_iff_output_text_mentions
         [of "''p''" demo_events demo_started "''t0''" "''claude_analyst''" Raises "''s1''" 2
             "[]" PNone ?e demo_started]
       demo_run_ok x
  have f: "fire demo_started ?e \<noteq> None" by (auto simp del: fire.simps)
  have a: "map_of (the (task_output (the (fire demo_started ?e)) ''t0'')) ''decisions_needed''
     = Some (PList [PStr ''database_choice'', PStr ''deployment_platform''])"
    unfolding demo_started_def demo_events_def by code_simp
  have b: "map s_type (signals (the (fire demo_started ?e))) = [REQUIREMENT, DECISION_NEEDED]"
    unfolding demo_started_def demo_events_def by code_simp
  have c: "signals_of_type DECISION_NEEDED (the (fire demo_started ?e))
     \<noteq> signals_of_type DECISION_NEEDED demo_started"
    unfolding demo_started_def demo_events_def by code_simp
  from demo_run_ok x f a b c show ?thesis by simp
qed

lemma count_status_zero:
  "list_all (\<lambda>kv. t_status (snd kv) \<noteq> s) ts \<Longrightarrow> count_status s ts = 0"
  by (auto simp: count_status_def list_all_iff filter_empty_conv)

lemma inv_no_blocked_no_quality_issue:
  assumes "engine_inv st"
  shows "count_status BLOCKED (tasks st) = 0 \<and> signals_of_type QUALITY_ISSUE st = []"
proof -
  from assms have "list_all (\<lambda>kv. t_status (snd kv) \<noteq> BLOCKED) (tasks st)"
    by (auto simp: engine_inv_def list_all_iff)
  then have "count_status BLOCKED (tasks st) = 0" by (rule count_status_zero)
  moreover from assms have "signals_of_type QUALITY_ISSUE st = []"
    by (auto simp: engine_inv_def list_all_iff signals_of_type_def filter_empty_conv)
  ultimately show ?thesis by simp
qed

text \<open>
  Claim C1, as the code has it. Whatever the worker call of an executing task does, the
  execution ends, the task is not left pending and is not marked blocked, no task of the
  engine is blocked and the log holds no \<open>quality_issue\<close> signal. When the call raises or
  returns an empty result, the task is marked completed with the simulated output for the
  type of the executing agent (with the empty output itself when that type has no
  simulation): the one fallback.
\<close>

theorem failed_execution_falls_back_and_completes:
  assumes "run (init pid) es = Some st" and "(tid, aid) \<in> set (awaiting st)"
  shows "\<exists>st' task agent.
           fire st (Finish tid aid outcome sig_id now) = Some st' \<and>
           map_of (tasks st) tid = Some task \<and> map_of (agents st) aid = Some agent \<and>
           (falsy (received_output outcome) \<longrightarrow>
              task_status st' tid = Some COMPLETED \<and>
              task_output st' tid =
                simulated_output (a_type agent) (t_description task) (received_output outcome)) \<and>
           task_status st' tid \<noteq> Some PENDING \<and> task_status st' tid \<noteq> Some BLOCKED \<and>
           count_status BLOCKED (tasks st') = 0 \<and> signals_of_type QUALITY_ISSUE st' = []"
proof -
  from assms(1) have "engine_inv st" by (rule inv_reachable)
  from finish_step [OF this assms(2), of outcome sig_id now] obtain task agent st' where
    t: "map_of (tasks st) tid = Some task" and a: "map_of (agents st) aid = Some agent"
    and f: "fire st (Finish tid aid outcome sig_id now) = Some st'"
    and m: "map_of (tasks st') tid =
           Some (task\<lparr>t_output := final_output agent task outcome, t_status := COMPLETED,
                      t_completed_at := Some now\<rparr>)"
    and i: "engine_inv st'"
    by blast
  from m have s: "task_status st' tid = Some COMPLETED" by (simp add: task_status_def)
  from m have o: "task_output st' tid = final_output agent task outcome"
    by (simp add: task_output_def)
  have fb: "task_output st' tid =
        simulated_output (a_type agent) (t_description task) (received_output outcome)"
    if "falsy (received_output outcome)"
    using that o by (simp add: final_output_def)
  from t a f s fb inv_no_blocked_no_quality_issue [OF i] show ?thesis by auto
qed

text \<open>The worker call of \<open>t0\<close> raises: the task completes with the simulated analysis.\<close>

theorem failed_execution_falls_back_and_completes_witness:
  "run (init ''p'') demo_events = Some demo_started \<and>
   (''t0'', ''claude_analyst'') \<in> set (awaiting demo_started) \<and>
   falsy (received_output Raises) \<and>
   fire demo_started (Finish ''t0'' ''claude_analyst'' Raises ''s1'' 2) \<noteq> None \<and>
   task_status (the (fire demo_started (Finish ''t0'' ''claude_analyst'' Raises ''s1'' 2))) ''t0''
     = Some COMPLETED \<and>
   task_output (the (fire demo_started (Finish ''t0'' ''claude_analyst'' Raises ''s1'' 2))) ''t0''
     = simulated_output ANALYST ''Analyze and architect solution for: Build an API'' None"
proof -
  let ?e = "Finish ''t0'' ''claude_analyst'' Raises ''s1'' 2"
  have x: "(''t0'', ''claude_analyst'') \<in> set (awaiting demo_started)"
    unfolding demo_started_def demo_events_def by code_simp
  have r: "falsy (received_output Raises)" by (simp add: falsy_def received_output_def)
  from failed_execution_falls_back_and_completes [OF demo_run_ok x, of Raises "''s1''" 2]
  have f: "fire demo_started ?e \<noteq> None" by (auto simp del: fire.simps)
  have s: "task_status (the (fire demo_started ?e)) ''t0'' = Some COMPLETED"
    unfolding demo_started_def demo_events_def by code_simp
  have o: "task_output (the (fire demo_started ?e)) ''t0''
     = simulated_output ANALYST ''Analyze and architect solution for: Build an API'' None"
    unfolding demo_started_def demo_events_def by code_simp
  from demo_run_ok x r f s o show ?thesis by simp
qed

text \<open>
  The claim as stated fails. The worker of \<open>t0\<close> returns a result with
  \<open>success = False\<close>: the result is kept as the output, the task is marked completed, not
  blocked, and no \<open>quality_issue\<close> signal is recorded. The worker call of the integration
  task raises and there is no simulated output for an integrator: the task is marked
  completed with no output, again with no \<open>quality_issue\<close> signal.
\<close>

theorem failed_execution_not_blocked:
  "fire demo_started (Finish ''t0'' ''claude_analyst'' (Returns demo_failed_reply) ''s1'' 2) \<noteq> None \<and>
   map_of demo_failed_reply ''success'' = Some (PBool False) \<and>
   task_status (the (fire demo_started
       (Finish ''t0'' ''claude_analyst'' (Returns demo_failed_reply) ''s1'' 2))) ''t0''
     = Some COMPLETED \<and>
   task_output (the (fire demo_started
       (Finish ''t0'' ''claude_analyst'' (Returns demo_failed_reply) ''s1'' 2))) ''t0''
     = Some demo_failed_reply \<and>
   signals_of_type QUALITY_ISSUE (the (fire demo_started
       (Finish ''t0'' ''claude_analyst'' (Returns demo_failed_reply) ''s1'' 2))) = [] \<and>
   fire demo_integrating (Finish ''i0'' ''ide_integrator'' Raises ''s1'' 2) \<noteq> None \<and>
   task_status (the (fire demo_integrating (Finish ''i0'' ''ide_integrator'' Raises ''s1'' 2))) ''i0''
     = Some COMPLETED \<and>
   task_output (the (fire demo_integrating (Finish ''i0'' ''ide_integrator'' Raises ''s1'' 2))) ''i0''
     = None \<and>
   signals (the (fire demo_integrating (Finish ''i0'' ''ide_integrator'' Raises ''s1'' 2))) = []"
  unfolding demo_started_def demo_events_def demo_failed_reply_def demo_integrating_def
  by code_simp

lemma roster_ids: "map fst initialize_agents =
    [''claude_analyst'', ''codex_impl'', ''claude2_validator'', ''ide_integrator'',
     ''deepseek_reasoner'']"
  by (simp add: initialize_agents_def)

lemma roster_no_implementer:
  "a \<in> set (map fst initialize_agents) \<Longrightarrow> \<not> str_contains ''implementer'' a"
proof -
  have "list_all (\<lambda>a. \<not> str_contains ''implementer'' a)
     [''claude_analyst'', ''codex_impl'', ''claude2_validator'', ''ide_integrator'',
      ''deepseek_reasoner'']"
    by code_simp
  then show "a \<in> set (map fst initialize_agents) \<Longrightarrow> \<not> str_contains ''implementer'' a"
    unfolding roster_ids list_all_iff by blast
qed

text \<open>
  Claim C6 against the code. The dictionary that \<open>_execute_task\<close> hands to the bridge has
  no \<open>context\<close> entry, so the bridge passes the empty context and the validation worker
  reads an empty implementer output, for every task and agent. The context built by the
  API server holds the requirement id and the priority only whenever the tasks are
  assigned to agents of the roster: no roster id contains \<open>implementer\<close>.
\<close>

theorem validator_receives_no_implementer_output:
  "bridge_context (task_payload task agent) = PDict [] \<and>
   implementer_output (bridge_context (task_payload task agent)) = Inr (PDict []) \<and>
   (list_all (\<lambda>t. case t_assigned_to t of
                      None \<Rightarrow> False
                    | Some a \<Rightarrow> a \<in> set (map fst initialize_agents)) requirement_tasks \<longrightarrow>
      build_context requirement_id task assigned_to requirement_tasks task_results =
        Inr [(''requirement_id'', PStr requirement_id), (''priority'', PInt (t_priority task))])"
proof -
  have a: "bridge_context (task_payload task agent) = PDict []"
    by (simp add: bridge_context_def task_payload_def)
  then have b: "implementer_output (bridge_context (task_payload task agent)) = Inr (PDict [])"
    by (simp add: implementer_output_def)
  have c: "build_context requirement_id task assigned_to requirement_tasks task_results =
        Inr [(''requirement_id'', PStr requirement_id), (''priority'', PInt (t_priority task))]"
    if l: "list_all (\<lambda>t. case t_assigned_to t of
                      None \<Rightarrow> False
                    | Some a \<Rightarrow> a \<in> set (map fst initialize_agents)) requirement_tasks"
  proof -
    from l have n: "\<not> list_ex (\<lambda>t. t_assigned_to t = None) requirement_tasks"
      by (fastforce simp: list_all_iff list_ex_iff split: option.splits)
    from l have "filter (\<lambda>t. case t_assigned_to t of
                                     None \<Rightarrow> False
                                   | Some a \<Rightarrow> str_contains ''implementer'' a) requirement_tasks = []"
      using roster_no_implementer
      by (fastforce simp: list_all_iff filter_empty_conv split: option.splits)
    with n show ?thesis by (simp add: build_context_def Let_def)
  qed
  from a b c show ?thesis by blast
qed

text \<open>
  The validation task \<open>t3\<close> of the run, assigned after the implementation task \<open>t2\<close> has
  completed on \<open>codex_impl\<close> with a result.
\<close>

theorem validator_receives_no_implementer_output_witness:
  "map (\<lambda>t. (t_id t, t_status t, t_assigned_to t)) (map snd (tasks demo_validating)) =
     [(''t0'', COMPLETED, Some ''claude_analyst''), (''t1'', COMPLETED, Some ''claude_analyst''),
      (''t2'', COMPLETED, Some ''codex_impl''), (''t3'', ASSIGNED, Some ''claude2_validator'')] \<and>
   task_output demo_validating ''t2'' = Some demo_impl_reply \<and>
   list_all (\<lambda>t. case t_assigned_to t of
                      None \<Rightarrow> False
                    | Some a \<Rightarrow> a \<in> set (map fst initialize_agents))
     (map snd (tasks demo_validating)) \<and>
   build_context ''r1'' (the (map_of (tasks demo_validating) ''t3'')) ''claude2_validator''
       (map snd (tasks demo_validating)) [(''t2'', demo_impl_reply)] =
     Inr [(''requirement_id'', PStr ''r1''), (''priority'', PInt 6)]"
proof -
  have a: "map (\<lambda>t. (t_id t, t_status t, t_assigned_to t)) (map snd (tasks demo_validating)) =
     [(''t0'', COMPLETED, Some ''claude_analyst''), (''t1'', COMPLETED, Some ''claude_analyst''),
      (''t2'', COMPLETED, Some ''codex_impl''), (''t3'', ASSIGNED, Some ''claude2_validator'')]"
    unfolding demo_validating_def demo_started_def demo_events_def by code_simp
  have b: "task_output demo_validating ''t2'' = Some demo_impl_reply"
    unfolding demo_validating_def demo_started_def demo_events_def by code_simp
  have l: "list_all (\<lambda>t. case t_assigned_to t of
                      None \<Rightarrow> False
                    | Some a \<Rightarrow> a \<in> set (map fst initialize_agents))
     (map snd (tasks demo_validating))"
    unfolding demo_validating_def demo_started_def demo_events_def by code_simp
  have p: "t_priority (the (map_of (tasks demo_validating) ''t3'')) = 6"
    unfolding demo_validating_def demo_started_def demo_events_def by code_simp
  from validator_receives_no_implementer_output
    [of "the (map_of (tasks demo_validating) ''t3'')" undefined "map snd (tasks demo_validating)"
        "''r1''" "''claude2_validator''" "[(''t2'', demo_impl_reply)]"] l p
  have "build_context ''r1'' (the (map_of (tasks demo_validating) ''t3'')) ''claude2_validator''
       (map snd (tasks demo_validating)) [(''t2'', demo_impl_reply)] =
     Inr [(''requirement_id'', PStr ''r1''), (''priority'', PInt 6)]"
    by simp
  with a b l show ?thesis by simp
qed

end
